theory Spec2Isabelle
  imports
    Complex_Main
    "HOL-Library.Log_Nat"
    "HOL-Library.Multiset"
    "HOL-Library.Sublist"
    "HOL-Library.Char_ord"
    "HOL-Library.List_Lexorder"
begin

section \<open>JavaScript numbers\<close>

text \<open>
  The programs compute with JavaScript numbers, which are IEEE 754 binary64 values.
  A finite value is kept as the rational it denotes; the two infinities and NaN are
  separate constructors. Negative zero is identified with zero: every operand below
  is a count or a length, so no zero of negative sign is ever divided by.
\<close>

datatype jsnum = Fin rat | PosInf | NegInf | NaN

text \<open>The number of binary digits of a positive integer.\<close>

function bitlen :: "int \<Rightarrow> int" where
  "bitlen a = (if 0 < a then 1 + bitlen (a div 2) else 0)"
  by pat_completeness auto
termination
  by (relation "measure (\<lambda>a. nat a)") auto

declare bitlen.simps [simp del]

text \<open>
  \<open>ilog2 q\<close> is the binary exponent of a positive rational: the integer \<open>e\<close> with
  \<open>2 ^ e \<le> q < 2 ^ (e + 1)\<close>, found from the bit lengths of numerator and denominator.
\<close>

definition ilog2 :: "rat \<Rightarrow> int" where
  "ilog2 q = (case quotient_of q of (a, b) \<Rightarrow>
     (let k = bitlen a - bitlen b
      in if 2 powi k \<le> q then k else k - 1))"

text \<open>Rounding to the nearest integer, a tie going to the even neighbour.\<close>

definition rne :: "rat \<Rightarrow> int" where
  "rne x = (let f = \<lfloor>x\<rfloor>; d = x - of_int f
            in if d < 1/2 then f else if 1/2 < d then f + 1
               else if even f then f else f + 1)"

text \<open>
  The spacing of binary64 values around \<open>q\<close>: 53 significant bits, and the fixed
  spacing \<open>2 ^ -1074\<close> of the subnormal range below \<open>2 ^ -1022\<close>.
\<close>

definition ulp :: "rat \<Rightarrow> rat" where
  "ulp q = 2 powi (max (ilog2 \<bar>q\<bar>) (- 1022) - 52)"

definition round_to :: "rat \<Rightarrow> rat \<Rightarrow> rat" where
  "round_to u q = of_int (rne (q / u)) * u"

text \<open>\<open>fl q\<close> is the binary64 value nearest to \<open>q\<close> (ties to even), before overflow.\<close>

definition fl :: "rat \<Rightarrow> rat" where
  "fl q = (if q = 0 then 0 else round_to (ulp q) q)"

text \<open>
  The least magnitude that no longer rounds to a finite binary64 value: \<open>2 ^ 1024\<close>,
  written as ten squarings of 2.
\<close>

definition overflowThreshold :: rat where
  "overflowThreshold = ((((((((((2 ^ 2) ^ 2) ^ 2) ^ 2) ^ 2) ^ 2) ^ 2) ^ 2) ^ 2) ^ 2)"

definition finiteOrInfinity :: "rat \<Rightarrow> jsnum" where
  "finiteOrInfinity r =
     (if overflowThreshold \<le> r then PosInf
      else if r \<le> - overflowThreshold then NegInf
      else Fin r)"

text \<open>The result of an arithmetic operation whose exact value is \<open>q\<close>.\<close>

definition js_round :: "rat \<Rightarrow> jsnum" where
  "js_round q = finiteOrInfinity (fl q)"

text \<open>
  A count or an array length as a number. Counts stay below \<open>2 ^ 53\<close>, where every
  integer is a binary64 value, so no rounding takes place.
\<close>

definition js_of_nat :: "nat \<Rightarrow> jsnum" where
  "js_of_nat n = Fin (of_nat n)"

text \<open>The operators \<open>/\<close>, \<open>*\<close> and \<open>+\<close> on numbers.\<close>

fun js_div :: "jsnum \<Rightarrow> jsnum \<Rightarrow> jsnum" where
  "js_div NaN _ = NaN"
| "js_div _ NaN = NaN"
| "js_div (Fin x) (Fin y) =
     (if y = 0 then (if x = 0 then NaN else if 0 < x then PosInf else NegInf)
      else js_round (x / y))"
| "js_div (Fin x) _ = Fin 0"
| "js_div PosInf (Fin y) = (if 0 \<le> y then PosInf else NegInf)"
| "js_div NegInf (Fin y) = (if 0 \<le> y then NegInf else PosInf)"
| "js_div _ _ = NaN"

fun js_mul :: "jsnum \<Rightarrow> jsnum \<Rightarrow> jsnum" where
  "js_mul NaN _ = NaN"
| "js_mul _ NaN = NaN"
| "js_mul (Fin x) (Fin y) = js_round (x * y)"
| "js_mul (Fin x) PosInf = (if x = 0 then NaN else if 0 < x then PosInf else NegInf)"
| "js_mul (Fin x) NegInf = (if x = 0 then NaN else if 0 < x then NegInf else PosInf)"
| "js_mul PosInf (Fin y) = (if y = 0 then NaN else if 0 < y then PosInf else NegInf)"
| "js_mul NegInf (Fin y) = (if y = 0 then NaN else if 0 < y then NegInf else PosInf)"
| "js_mul PosInf PosInf = PosInf"
| "js_mul NegInf NegInf = PosInf"
| "js_mul _ _ = NegInf"

fun js_add :: "jsnum \<Rightarrow> jsnum \<Rightarrow> jsnum" where
  "js_add NaN _ = NaN"
| "js_add _ NaN = NaN"
| "js_add (Fin x) (Fin y) = js_round (x + y)"
| "js_add PosInf NegInf = NaN"
| "js_add NegInf PosInf = NaN"
| "js_add (Fin x) b = b"
| "js_add a _ = a"

text \<open>The comparison \<open>a < b\<close>; every comparison with NaN is false. \<open>a > b\<close> is \<open>b < a\<close>.\<close>

fun js_less :: "jsnum \<Rightarrow> jsnum \<Rightarrow> bool" where
  "js_less (Fin x) (Fin y) = (x < y)"
| "js_less (Fin x) PosInf = True"
| "js_less NegInf (Fin y) = True"
| "js_less NegInf PosInf = True"
| "js_less _ _ = False"

definition js_le :: "jsnum \<Rightarrow> jsnum \<Rightarrow> bool" where
  "js_le a b = (js_less a b \<or> (a = b \<and> a \<noteq> NaN))"

section \<open>JavaScript strings and arrays\<close>

text \<open>
  A string is the list of its code units; the model covers the code units below 256
  (Latin-1), which is what \<open>char\<close> holds. On these, \<open>toLowerCase\<close> maps \<open>A\<close>--\<open>Z\<close> and
  the accented capitals \<open>U+00C0\<close>--\<open>U+00DE\<close> (without the multiplication sign
  \<open>U+00D7\<close>) to the letter 32 places further, and leaves every other unit alone.
\<close>

definition toLowerChar :: "char \<Rightarrow> char" where
  "toLowerChar c = (let n = of_char c :: nat
     in if (65 \<le> n \<and> n \<le> 90) \<or> (192 \<le> n \<and> n \<le> 222 \<and> n \<noteq> 215)
        then char_of (n + 32) else c)"

definition toLowerCase :: "string \<Rightarrow> string" where
  "toLowerCase s = map toLowerChar s"

text \<open>\<open>s.startsWith(p)\<close>, \<open>s.endsWith(p)\<close> and \<open>s.includes(k)\<close>.\<close>

fun startsWith :: "string \<Rightarrow> string \<Rightarrow> bool" where
  "startsWith s [] = True"
| "startsWith [] (p # ps) = False"
| "startsWith (c # cs) (p # ps) = (c = p \<and> startsWith cs ps)"

definition endsWith :: "string \<Rightarrow> string \<Rightarrow> bool" where
  "endsWith s p = startsWith (rev s) (rev p)"

fun includesStr :: "string \<Rightarrow> string \<Rightarrow> bool" where
  "includesStr [] k = (k = [])"
| "includesStr (c # cs) k = (startsWith (c # cs) k \<or> includesStr cs k)"

text \<open>\<open>s.split(c)\<close> for a separator of one character: it always yields a first piece.\<close>

fun splitOn :: "char \<Rightarrow> string \<Rightarrow> string list" where
  "splitOn sep [] = [[]]"
| "splitOn sep (c # cs) =
     (if c = sep then [] # splitOn sep cs
      else (case splitOn sep cs of [] \<Rightarrow> [[c]] | w # ws \<Rightarrow> (c # w) # ws))"

text \<open>\<open>parts.join(sep)\<close> on an array of strings.\<close>

fun join :: "string \<Rightarrow> string list \<Rightarrow> string" where
  "join sep [] = []"
| "join sep [x] = x"
| "join sep (x # y # ys) = x @ sep @ join sep (y # ys)"

text \<open>The decimal digits of a count, as \<open>String(n)\<close> and template literals print it.\<close>

fun showNat :: "nat \<Rightarrow> string" where
  "showNat n = (if n < 10 then [char_of (48 + n)]
                else showNat (n div 10) @ [char_of (48 + n mod 10)])"

declare showNat.simps [simp del]

text \<open>
  A \<open>Set\<close> of strings keeps its members in insertion order: it is the list of the
  members, and \<open>add\<close> appends a value that is not yet a member.
\<close>

definition set_add :: "'a list \<Rightarrow> 'a \<Rightarrow> 'a list" where
  "set_add s x = (if x \<in> set s then s else s @ [x])"

text \<open>
  \<open>[...xs].sort((a, b) => key(b) - key(a))\<close>: a copy of the array in descending order of
  the key. \<open>Array.prototype.sort\<close> is stable, so elements of equal key keep the order
  they had in \<open>xs\<close>.
\<close>

definition sortDescBy :: "('a \<Rightarrow> nat) \<Rightarrow> 'a list \<Rightarrow> 'a list" where
  "sortDescBy key xs = sort_key (\<lambda>x. - int (key x)) xs"

text \<open>
  What ECMAScript promises of the array after \<open>sort\<close> with this comparator, whatever
  algorithm the engine runs: the same elements, in descending order of the key, equal
  keys in their original order.
\<close>

definition sortedDescOf :: "('a \<Rightarrow> nat) \<Rightarrow> 'a list \<Rightarrow> 'a list \<Rightarrow> bool" where
  "sortedDescOf key xs ys \<longleftrightarrow>
     mset ys = mset xs \<and>
     sorted (map (\<lambda>x. - int (key x)) ys) \<and>
     (\<forall>k \<in> set ys. filter (\<lambda>x. key x = key k) ys = filter (\<lambda>x. key x = key k) xs)"

text \<open>The errors that the programs below raise.\<close>

datatype js_error =
    TypeError \<comment> \<open>reading a property of \<open>undefined\<close>\<close>
  | EmptyActivityError \<comment> \<open>named by the specification; no code path raises it\<close>

section \<open>\<open>Validator.sanitizeFilePath\<close>\<close>

text \<open>
  The function works through Node's \<open>path\<close> module, whose flavour depends on the
  platform. The module is a parameter: its separator and the three functions that
  \<open>sanitizeFilePath\<close> and its contract use.
\<close>

record PathModule =
  sep :: string
  resolve :: "string list \<Rightarrow> string"
  normalize :: "string \<Rightarrow> string"
  isAbsolute :: "string \<Rightarrow> bool"

datatype path_error =
    PathTraversal string \<comment> \<open>"Path traversal detected: ... resolves outside workspace root"\<close>
  | InvalidFilePath string \<comment> \<open>"Invalid file path: ..."\<close>

text \<open>\<open>p.endsWith(path.sep) ? p : p + path.sep\<close>.\<close>

definition withSep :: "PathModule \<Rightarrow> string \<Rightarrow> string" where
  "withSep path p = (if endsWith p (sep path) then p else p @ sep path)"

text \<open>
  The functions of \<open>path\<close> throw on arguments that are not strings only, so with
  string arguments the \<open>catch\<close> block sees none but the error thrown in the \<open>try\<close>
  block, which it throws again; \<open>InvalidFilePath\<close> is never raised.
\<close>

definition sanitizeFilePath :: "PathModule \<Rightarrow> string \<Rightarrow> string \<Rightarrow> path_error + string" where
  "sanitizeFilePath path filePath workspaceRoot =
     (let resolvedWorkspaceRoot = resolve path [workspaceRoot];
          normalized = normalize path filePath;
          resolved = resolve path [resolvedWorkspaceRoot, normalized];
          workspaceWithSep = withSep path resolvedWorkspaceRoot;
          resolvedWithSep = withSep path resolved
      in if resolved \<noteq> resolvedWorkspaceRoot \<and> \<not> startsWith resolvedWithSep workspaceWithSep
         then Inl (PathTraversal filePath)
         else Inr resolved)"

subsection \<open>The POSIX flavour of \<open>path\<close>\<close>

text \<open>
  \<open>normalizeString\<close> of Node's \<open>path\<close>, on the segments between slashes: an empty
  segment and \<open>.\<close> are dropped, \<open>..\<close> removes the segment before it, or is kept where
  there is none to remove and the path may climb above its root. The segments
  collected so far are kept in reverse.
\<close>

fun normalizeSegments :: "bool \<Rightarrow> string list \<Rightarrow> string list \<Rightarrow> string list" where
  "normalizeSegments allowAboveRoot res [] = rev res"
| "normalizeSegments allowAboveRoot res (seg # segs) =
     (if seg = [] \<or> seg = ''.'' then normalizeSegments allowAboveRoot res segs
      else if seg = ''..'' then
        (case res of
           [] \<Rightarrow> normalizeSegments allowAboveRoot (if allowAboveRoot then [''..''] else []) segs
         | lastSeg # earlier \<Rightarrow>
             (if lastSeg = ''..''
              then normalizeSegments allowAboveRoot
                     (if allowAboveRoot then ''..'' # res else res) segs
              else normalizeSegments allowAboveRoot earlier segs))
      else normalizeSegments allowAboveRoot (seg # res) segs)"

definition normalizeString :: "string \<Rightarrow> bool \<Rightarrow> string" where
  "normalizeString p allowAboveRoot =
     join ''/'' (normalizeSegments allowAboveRoot [] (splitOn CHR ''/'' p))"

definition posixIsAbsolute :: "string \<Rightarrow> bool" where
  "posixIsAbsolute p = startsWith p ''/''"

definition posixNormalize :: "string \<Rightarrow> string" where
  "posixNormalize p =
     (if p = [] then ''.''
      else let n = normalizeString p (\<not> posixIsAbsolute p)
           in if n = [] then (if posixIsAbsolute p then ''/''
                              else if endsWith p ''/'' then ''./'' else ''.'')
              else (if posixIsAbsolute p then ''/'' else []) @ n @
                   (if endsWith p ''/'' then ''/'' else []))"

text \<open>
  \<open>path.resolve\<close> reads its arguments from the last to the first, and then the
  working directory, until the path collected is absolute. \<open>resolveArgs\<close> takes them
  in that order.
\<close>

fun resolveArgs :: "string list \<Rightarrow> string \<Rightarrow> string \<times> bool" where
  "resolveArgs [] resolvedPath = (resolvedPath, False)"
| "resolveArgs (p # ps) resolvedPath =
     (if p = [] then resolveArgs ps resolvedPath
      else if posixIsAbsolute p then (p @ ''/'' @ resolvedPath, True)
      else resolveArgs ps (p @ ''/'' @ resolvedPath))"

definition posixResolve :: "string \<Rightarrow> string list \<Rightarrow> string" where
  "posixResolve cwd args =
     (case resolveArgs (rev args @ [cwd]) [] of
        (resolvedPath, resolvedAbsolute) \<Rightarrow>
          (let n = normalizeString resolvedPath (\<not> resolvedAbsolute)
           in if resolvedAbsolute then ''/'' @ n
              else if n \<noteq> [] then n else ''.''))"

text \<open>The module on a POSIX system whose working directory is \<open>cwd\<close>.\<close>

definition posix :: "string \<Rightarrow> PathModule" where
  "posix cwd = \<lparr> sep = ''/'', resolve = posixResolve cwd,
                 normalize = posixNormalize, isAbsolute = posixIsAbsolute \<rparr>"

text \<open>
  The directory names of a path, and the segment lists that \<open>normalizeString\<close> leaves
  for an absolute path: no empty segment, no \<open>.\<close>, no \<open>..\<close>, no slash inside.
\<close>

definition segmentsOf :: "string \<Rightarrow> string list" where
  "segmentsOf p = filter (\<lambda>s. s \<noteq> []) (splitOn CHR ''/'' p)"

definition cleanSegments :: "string list \<Rightarrow> bool" where
  "cleanSegments segs \<longleftrightarrow>
     (\<forall>s \<in> set segs. s \<noteq> [] \<and> s \<noteq> ''.'' \<and> s \<noteq> ''..'' \<and> CHR ''/'' \<notin> set s)"

section \<open>\<open>evals/starter.eval.ts\<close>\<close>

subsection \<open>Task "Expert Identification - Basic"\<close>

record Contributor =
  name :: string
  commits :: nat

record ExpertiseScore =
  name :: string
  score :: jsnum

record ExpertIdentification =
  topExpert :: string
  totalExperts :: nat
  expertiseScores :: "ExpertiseScore list"

text \<open>The score of one contributor: \<open>(c.commits / sorted[0].commits) * 100\<close>.\<close>

definition expertiseScore :: "nat \<Rightarrow> nat \<Rightarrow> jsnum" where
  "expertiseScore c c0 = js_mul (js_div (js_of_nat c) (js_of_nat c0)) (Fin 100)"

text \<open>
  The object that the task returns once the array \<open>sorted\<close> is known. With no contributor,
  \<open>sorted[0]\<close> is \<open>undefined\<close> and reading \<open>sorted[0].name\<close> throws a TypeError.
\<close>

definition expertResult :: "Contributor list \<Rightarrow> Contributor list \<Rightarrow> js_error + ExpertIdentification" where
  "expertResult contributors sortedArr =
     (case sortedArr of
        [] \<Rightarrow> Inl TypeError
      | sorted0 # _ \<Rightarrow> Inr \<lparr> topExpert = Contributor.name sorted0,
                        totalExperts = length contributors,
                        expertiseScores =
                          map (\<lambda>c. \<lparr> ExpertiseScore.name = Contributor.name c,
                                     score = expertiseScore (Contributor.commits c)
                                               (Contributor.commits sorted0) \<rparr>) sortedArr \<rparr>)"

definition expertTask :: "Contributor list \<Rightarrow> js_error + ExpertIdentification" where
  "expertTask contributors =
     expertResult contributors (sortDescBy Contributor.commits contributors)"

text \<open>The expertise percent as the specification words it: \<open>round(100 * c / max)\<close>.\<close>

definition specExpertisePercent :: "nat \<Rightarrow> nat \<Rightarrow> int" where
  "specExpertisePercent c mx = round (100 * of_nat c / of_nat mx :: rat)"

subsection \<open>Task "Team Collaboration Detection"\<close>

definition collaborationKeywords :: "string list" where
  "collaborationKeywords = [''review'', ''merge'', ''pair'', ''thanks'', ''helped'']"

record CollaborationDetection =
  hasCollaboration :: bool
  patterns :: "string list"

definition collaborationDetectionTask :: "string list \<Rightarrow> CollaborationDetection" where
  "collaborationDetectionTask msgs =
     \<lparr> hasCollaboration =
         list_ex (\<lambda>msg. list_ex (\<lambda>keyword. includesStr (toLowerCase msg) keyword)
                          collaborationKeywords) msgs,
       patterns =
         filter (\<lambda>keyword. list_ex (\<lambda>msg. includesStr (toLowerCase msg) keyword) msgs)
                collaborationKeywords \<rparr>"

section \<open>\<open>evals/real-analysis.eval.ts\<close>\<close>

subsection \<open>Task "AI Expertise Analysis - Quality Check": the specializations\<close>

record Commit =
  author :: string
  message :: string
  date :: string
  files :: "string list"

text \<open>
  One round of \<open>commits.forEach\<close>: the four tests run in this order, each adding its
  label to the set.
\<close>

definition addSpecializations :: "string list \<Rightarrow> Commit \<Rightarrow> string list" where
  "addSpecializations specializations commit =
     (let s1 = (if includesStr (toLowerCase (message commit)) ''auth''
                then set_add specializations ''Authentication'' else specializations);
          s2 = (if includesStr (toLowerCase (message commit)) ''security''
                then set_add s1 ''Security'' else s1);
          s3 = (if includesStr (toLowerCase (message commit)) ''react''
                then set_add s2 ''React'' else s2)
      in if includesStr (toLowerCase (message commit)) ''typescript''
         then set_add s3 ''TypeScript'' else s3)"

text \<open>\<open>Array.from(specializations)\<close> after the loop over the commits, in array order.\<close>

definition detectSpecializations :: "Commit list \<Rightarrow> string list" where
  "detectSpecializations commitList =
     fold (\<lambda>commit s. addSpecializations s commit) commitList []"

text \<open>The labels that one commit matches, in the order of the four tests.\<close>

definition labelsOf :: "Commit \<Rightarrow> string list" where
  "labelsOf commit =
     map snd (filter (\<lambda>(keyword, label). includesStr (toLowerCase (message commit)) keyword)
        [(''auth'', ''Authentication''), (''security'', ''Security''),
         (''react'', ''React''), (''typescript'', ''TypeScript'')])"

text \<open>A sequence without its repetitions, each element at its first occurrence.\<close>

definition firstOccurrences :: "'a list \<Rightarrow> 'a list" where
  "firstOccurrences xs = rev (remdups (rev xs))"

text \<open>
  The order that the specification words: first occurrences when the commits are
  scanned from the oldest to the newest. A date is an ISO string, so the order of the
  strings is the order of the dates.
\<close>

definition specSpecializations :: "Commit list \<Rightarrow> string list" where
  "specSpecializations commitList =
     firstOccurrences (concat (map labelsOf (sort_key date commitList)))"

subsection \<open>Task "File Expert Matching"\<close>

record FileContributor =
  name :: string
  commits :: nat
  lastEdit :: string

record FileExpertInput =
  filePath :: string
  contributors :: "FileContributor list"

record FileExpertMatch =
  filePath :: string
  expertName :: string
  confidence :: jsnum
  totalContributions :: nat

text \<open>
  \<open>topContributor.commits\<close> throws when there is no contributor, and
  \<open>sorted[1].commits\<close> throws when there is only one.
\<close>

definition fileExpertTask :: "FileExpertInput \<Rightarrow> js_error + FileExpertMatch" where
  "fileExpertTask input =
     (case sortDescBy FileContributor.commits (contributors input) of
        [] \<Rightarrow> Inl TypeError
      | [topContributor] \<Rightarrow> Inl TypeError
      | topContributor # second # _ \<Rightarrow>
          Inr \<lparr> FileExpertMatch.filePath = FileExpertInput.filePath input,
                expertName = FileContributor.name topContributor,
                confidence =
                  js_div (js_of_nat (FileContributor.commits topContributor))
                    (js_add (js_of_nat (FileContributor.commits topContributor))
                            (js_of_nat (FileContributor.commits second))),
                totalContributions = FileContributor.commits topContributor \<rparr>)"

text \<open>
  The ranking that the specification words: descending score, then the more recent
  last edit, then the identity. \<open>specRankedBefore a b\<close> says that \<open>a\<close> may stand before
  \<open>b\<close>.
\<close>

definition specRankedBefore :: "FileContributor \<Rightarrow> FileContributor \<Rightarrow> bool" where
  "specRankedBefore a b \<longleftrightarrow>
     FileContributor.commits b < FileContributor.commits a \<or>
     (FileContributor.commits a = FileContributor.commits b \<and>
        (lastEdit b < lastEdit a \<or>
         (lastEdit a = lastEdit b \<and> FileContributor.name a \<le> FileContributor.name b)))"

fun specRanked :: "FileContributor list \<Rightarrow> bool" where
  "specRanked [] = True"
| "specRanked (a # rest) = (list_all (specRankedBefore a) rest \<and> specRanked rest)"

subsection \<open>Task "Collaboration Pattern Analysis"\<close>

text \<open>The entries of the object \<open>collaborationKeywords\<close>, in the order of its keys.\<close>

definition collaborationPatterns :: "(string \<times> string) list" where
  "collaborationPatterns =
     [(''review'', ''code review''), (''pair'', ''pair programming''),
      (''thanks'', ''gratitude/recognition''), (''helped'', ''knowledge sharing''),
      (''team'', ''team collaboration''), (''merged'', ''integration work'')]"

record CollaborationScan =
  foundPatterns :: "string list"
  collaborativeCommits :: nat

text \<open>The inner loop over the entries, for one lower-cased message.\<close>

definition matchEntry :: "string \<Rightarrow> string \<times> string \<Rightarrow> string list \<times> bool \<Rightarrow> string list \<times> bool" where
  "matchEntry lower entry st =
     (if includesStr lower (fst entry) then (set_add (fst st) (snd entry), True) else st)"

text \<open>One round of \<open>input.commits.forEach\<close>.\<close>

definition scanMessage :: "string \<Rightarrow> CollaborationScan \<Rightarrow> CollaborationScan" where
  "scanMessage msg st =
     (let r = fold (matchEntry (toLowerCase msg)) collaborationPatterns (foundPatterns st, False)
      in \<lparr> foundPatterns = fst r,
           collaborativeCommits =
             (if snd r then collaborativeCommits st + 1 else collaborativeCommits st) \<rparr>)"

record CollaborationAnalysis =
  collaborationScore :: jsnum
  patterns :: "string list"
  totalCommits :: nat
  collaborativeCommits :: nat

definition collaborationAnalysisTask :: "string list \<Rightarrow> CollaborationAnalysis" where
  "collaborationAnalysisTask msgs =
     (let st = fold scanMessage msgs \<lparr> foundPatterns = [], collaborativeCommits = 0 \<rparr>
      in \<lparr> collaborationScore =
             js_div (js_of_nat (CollaborationScan.collaborativeCommits st))
                    (js_of_nat (length msgs)),
           patterns = foundPatterns st,
           totalCommits = length msgs,
           collaborativeCommits = CollaborationScan.collaborativeCommits st \<rparr>)"

text \<open>Whether a message counts as collaborative: some key occurs in it, case ignored.\<close>

definition isCollaborative :: "string \<Rightarrow> bool" where
  "isCollaborative msg =
     list_ex (\<lambda>entry. includesStr (toLowerCase msg) (fst entry)) collaborationPatterns"

text \<open>
  The knowledge-sharing metric as the specification words it: the share of the messages
  that contain one of \<open>review\<close>, \<open>pair\<close>, \<open>merge\<close>, \<open>thanks\<close>, \<open>helped\<close>, on a scale
  of 0 to 100, rounded.
\<close>

definition specKnowledgeSharing :: "string list \<Rightarrow> int" where
  "specKnowledgeSharing msgs =
     round (100 * of_nat (length (filter (\<lambda>msg. list_ex (\<lambda>keyword. includesStr (toLowerCase msg) keyword)
                [''review'', ''pair'', ''merge'', ''thanks'', ''helped'']) msgs))
            / of_nat (length msgs) :: rat)"

section \<open>\<open>src/core/report-generator.ts\<close>\<close>

text \<open>
  \<open>report-generator.ts\<close> imports the type \<open>ExpertiseAnalysis\<close>; the records below
  hold the fields that the functions modelled here read. An optional property is an
  \<open>option\<close>.
\<close>

record KnowledgeDistribution =
  riskScore :: "jsnum option"

record CollaborationMetrics =
  knowledgeSharing :: "jsnum option"

record TeamHealthMetrics =
  knowledgeDistribution :: "KnowledgeDistribution option"
  collaborationMetrics :: "CollaborationMetrics option"

record ExpertProfile =
  name :: string
  email :: string
  expertise :: jsnum
  contributions :: nat
  specializations :: "string list option"
  teamRole :: "string option"

record FileExpert =
  name :: string

record FileExpertise =
  fileName :: string
  filePath :: string
  experts :: "FileExpert list"
  changeFrequency :: string

record ExpertiseAnalysis =
  repository :: string
  totalFiles :: nat
  expertProfiles :: "ExpertProfile list"
  fileExpertise :: "FileExpertise list"
  teamHealthMetrics :: "TeamHealthMetrics option"

subsection \<open>\<open>ReportGenerator.generateRecommendations\<close>\<close>

text \<open>
  \<open>teamHealthMetrics?.knowledgeDistribution?.riskScore ?? 0\<close>: a missing link of the
  chain gives \<open>undefined\<close>, which \<open>??\<close> replaces by 0.
\<close>

definition riskScoreOf :: "ExpertiseAnalysis \<Rightarrow> jsnum" where
  "riskScoreOf analysis =
     (case teamHealthMetrics analysis of None \<Rightarrow> Fin 0
      | Some m \<Rightarrow> (case knowledgeDistribution m of None \<Rightarrow> Fin 0
          | Some d \<Rightarrow> (case riskScore d of None \<Rightarrow> Fin 0 | Some r \<Rightarrow> r)))"

definition sharingScoreOf :: "ExpertiseAnalysis \<Rightarrow> jsnum" where
  "sharingScoreOf analysis =
     (case teamHealthMetrics analysis of None \<Rightarrow> Fin 0
      | Some m \<Rightarrow> (case collaborationMetrics m of None \<Rightarrow> Fin 0
          | Some c \<Rightarrow> (case knowledgeSharing c of None \<Rightarrow> Fin 0 | Some s \<Rightarrow> s)))"

definition knowledgeRecommendation :: string where
  "knowledgeRecommendation =
     ''Implement regular knowledge sharing sessions and documentation sprints''"

definition collaborationRecommendation :: string where
  "collaborationRecommendation =
     ''Establish regular code review rotations and pair programming sessions''"

definition generalRecommendations :: "string list" where
  "generalRecommendations =
     [''Consider implementing pair programming sessions to distribute knowledge'',
      ''Document key workflows and architectural decisions'',
      ''Set up regular technical sharing sessions'']"

text \<open>The array \<open>recommendations\<close> as it stands before it is rendered.\<close>

definition recommendations :: "ExpertiseAnalysis \<Rightarrow> string list" where
  "recommendations analysis =
     (let r1 = (if js_less (Fin 70) (riskScoreOf analysis)
                then [knowledgeRecommendation] else []);
          r2 = r1 @ (if js_less (sharingScoreOf analysis) (Fin 50)
                then [collaborationRecommendation] else [])
      in if length r2 = 0 then r2 @ generalRecommendations else r2)"

definition generateRecommendations :: "ExpertiseAnalysis \<Rightarrow> string" where
  "generateRecommendations analysis =
     concat (map (\<lambda>rec. ''<p>'' @ rec @ ''</p>'') (recommendations analysis))"

subsection \<open>\<open>ReportGenerator.generateAnalysisSummary\<close>\<close>

text \<open>
  \<open>expertProfiles.sort(...)\<close> sorts the array of the analysis itself, so the function
  returns the analysis as it leaves it, next to the summary.
\<close>

definition generateAnalysisSummary :: "ExpertiseAnalysis \<Rightarrow> string \<times> ExpertiseAnalysis" where
  "generateAnalysisSummary analysis =
     (let sortedArr = sortDescBy contributions (expertProfiles analysis);
          analysis' = analysis \<lparr> expertProfiles := sortedArr \<rparr>
      in case sortedArr of
           [] \<Rightarrow> (''No team analysis available.'', analysis')
         | topContributor # _ \<Rightarrow>
             (ExpertProfile.name topContributor @
                '' is the primary contributor and a potential bottleneck for CI/CD expertise.'',
              analysis'))"

subsection \<open>\<open>ReportGenerator.generateHTMLReport\<close>\<close>

text \<open>
  The report is one template literal. The record \<open>HTMLReport\<close> holds the values that
  the template interpolates, in the order in which they are evaluated, and an
  \<open>ExpertCard\<close> those of one expert card: the role when \<open>teamRole\<close> is present and not
  empty, and the specializations as the tags. The fixed markup between the values, the
  dates (today's, and the days since the last commit) and the management insights are
  left out.
\<close>

record ExpertCard =
  cardName :: string
  cardEmail :: string
  cardRole :: "string option"
  cardExpertise :: jsnum
  cardCommits :: nat
  cardTags :: "string list"

definition expertCard :: "ExpertProfile \<Rightarrow> ExpertCard" where
  "expertCard expert =
     \<lparr> cardName = ExpertProfile.name expert,
       cardEmail = email expert,
       cardRole = (case teamRole expert of
                     None \<Rightarrow> None
                   | Some role \<Rightarrow> (if role = [] then None else Some role)),
       cardExpertise = expertise expert,
       cardCommits = contributions expert,
       cardTags = (case specializations expert of None \<Rightarrow> [] | Some tags \<Rightarrow> tags) \<rparr>"

record HTMLReport =
  repoName :: string
  filesAnalyzed :: nat
  expertsIdentified :: nat
  expertCards :: "ExpertCard list"
  analysisSummary :: string
  keyRecommendations :: string

definition generateHTMLReport :: "ExpertiseAnalysis \<Rightarrow> HTMLReport \<times> ExpertiseAnalysis" where
  "generateHTMLReport analysis =
     (let lastPart = last (splitOn CHR ''/'' (repository analysis));
          cards = map expertCard (expertProfiles analysis);
          (summary, analysis') = generateAnalysisSummary analysis
      in (\<lparr> repoName = (if lastPart = [] then ''analysis'' else lastPart),
            filesAnalyzed = totalFiles analysis,
            expertsIdentified = length (expertProfiles analysis),
            expertCards = cards,
            analysisSummary = summary,
            keyRecommendations = generateRecommendations analysis' \<rparr>,
          analysis'))"

subsection \<open>\<open>ReportGenerator.generateCSV\<close>: the files sheet\<close>

text \<open>
  \<open>primaryExpert?.name || 'Unknown'\<close>, where \<open>primaryExpert\<close> is \<open>file.experts[0]\<close>: the
  name of the first expert, unless there is none or the name is empty.
\<close>

definition primaryExpertName :: "FileExpertise \<Rightarrow> string" where
  "primaryExpertName file =
     (case experts file of
        [] \<Rightarrow> ''Unknown''
      | primaryExpert # _ \<Rightarrow>
          (if FileExpert.name primaryExpert = [] then ''Unknown''
           else FileExpert.name primaryExpert))"

definition quoted :: "string \<Rightarrow> string" where
  "quoted s = [CHR 0x22] @ s @ [CHR 0x22]"

definition filesRow :: "FileExpertise \<Rightarrow> string" where
  "filesRow file =
     join '','' [quoted (fileName file), quoted (FileExpertise.filePath file),
                showNat (length (experts file)), quoted (primaryExpertName file),
                changeFrequency file]"

definition filesCSV :: "ExpertiseAnalysis \<Rightarrow> string" where
  "filesCSV analysis =
     ''File Name,File Path,Expert Count,Primary Expert,Change Frequency'' @ [CHR 0x0A] @
     join [CHR 0x0A] (map filesRow (fileExpertise analysis))"

section \<open>Sample inputs\<close>

definition sample_analysis :: "jsnum \<Rightarrow> jsnum \<Rightarrow> ExpertiseAnalysis" where
  "sample_analysis r s =
     \<lparr> repository = ''org/repo'', totalFiles = 0, expertProfiles = [], fileExpertise = [],
       teamHealthMetrics = Some \<lparr> knowledgeDistribution = Some \<lparr> riskScore = Some r \<rparr>,
                                  collaborationMetrics = Some \<lparr> knowledgeSharing = Some s \<rparr> \<rparr> \<rparr>"

definition sample_contributors :: "Contributor list" where
  "sample_contributors =
     [\<lparr> Contributor.name = ''Alice Dev'', commits = 150 \<rparr>,
      \<lparr> Contributor.name = ''Bob Engineer'', commits = 85 \<rparr>,
      \<lparr> Contributor.name = ''Charlie Coder'', commits = 45 \<rparr>]"

definition sample_identification :: ExpertIdentification where
  "sample_identification =
     \<lparr> topExpert = ''Alice Dev'', totalExperts = 3,
       expertiseScores =
         [\<lparr> ExpertiseScore.name = ''Alice Dev'', score = Fin 100 \<rparr>,
          \<lparr> ExpertiseScore.name = ''Bob Engineer'',
            score = Fin (7975124340135253 / 140737488355328) \<rparr>,
          \<lparr> ExpertiseScore.name = ''Charlie Coder'', score = Fin 30 \<rparr>] \<rparr>"

definition single_contributor :: "Contributor list" where
  "single_contributor = [\<lparr> Contributor.name = ''Sarah Smith'', commits = 200 \<rparr>]"

definition idle_contributor :: "Contributor list" where
  "idle_contributor = [\<lparr> Contributor.name = ''Sarah Smith'', commits = 0 \<rparr>]"

definition sample_messages :: "string list" where
  "sample_messages = [''Fixed bug'', ''Reviewed Alice's PR'', ''Merged feature'']"

definition sample_commits :: "Commit list" where
  "sample_commits =
     [\<lparr> author = ''Alice Chen'',
        message = ''Refactor authentication system with improved security'',
        date = ''2025-11-20'', files = [''src/auth/login.ts'', ''src/auth/security.ts''] \<rparr>,
      \<lparr> author = ''Alice Chen'',
        message = ''Code review: Helped Bob with async/await patterns'',
        date = ''2025-11-19'', files = [] \<rparr>,
      \<lparr> author = ''Bob Martinez'',
        message = ''Add React dashboard components with TypeScript'',
        date = ''2025-11-18'', files = [''src/ui/Dashboard.tsx'', ''src/ui/Charts.tsx''] \<rparr>]"

definition sample_file_input :: FileExpertInput where
  "sample_file_input =
     \<lparr> FileExpertInput.filePath = ''src/auth/login.ts'',
       contributors =
         [\<lparr> FileContributor.name = ''Alice Chen'', commits = 15, lastEdit = ''2025-11-20'' \<rparr>,
          \<lparr> FileContributor.name = ''Bob Martinez'', commits = 2, lastEdit = ''2025-10-15'' \<rparr>] \<rparr>"

definition tied_file_input :: FileExpertInput where
  "tied_file_input =
     \<lparr> FileExpertInput.filePath = ''src/auth/login.ts'',
       contributors =
         [\<lparr> FileContributor.name = ''Bob Martinez'', commits = 5, lastEdit = ''2025-10-15'' \<rparr>,
          \<lparr> FileContributor.name = ''Alice Chen'', commits = 5, lastEdit = ''2025-11-20'' \<rparr>] \<rparr>"

definition sample_file :: FileExpertise where
  "sample_file =
     \<lparr> fileName = ''login.ts'', filePath = ''src/auth/login.ts'',
       experts = [\<lparr> FileExpert.name = ''Alice Chen'' \<rparr>, \<lparr> FileExpert.name = ''Bob Martinez'' \<rparr>],
       changeFrequency = ''high'' \<rparr>"

definition unmatched_commit :: Commit where
  "unmatched_commit =
     \<lparr> author = ''Bob Martinez'', message = ''Fix typo'', date = ''2025-11-18'', files = [] \<rparr>"

definition unsorted_analysis :: ExpertiseAnalysis where
  "unsorted_analysis =
     \<lparr> repository = ''org/repo'', totalFiles = 2,
       expertProfiles =
         [\<lparr> ExpertProfile.name = ''Bob'', email = ''bob@example.com'',
            expertise = Fin 50, contributions = 1,
            specializations = None, teamRole = None \<rparr>,
          \<lparr> ExpertProfile.name = ''Alice'', email = ''alice@example.com'',
            expertise = Fin 100, contributions = 2,
            specializations = Some [''Authentication''], teamRole = Some ''Lead'' \<rparr>],
       fileExpertise = [], teamHealthMetrics = None \<rparr>"

section \<open>Properties\<close>

subsection \<open>Rounding to binary64\<close>

lemma rne_of_int: "rne (of_int n) = n"
  by (simp add: rne_def)

lemma rne_bounds: "\<lfloor>x\<rfloor> \<le> rne x \<and> rne x \<le> \<lfloor>x\<rfloor> + 1"
  by (simp add: rne_def Let_def)

lemma rne_mono: "x \<le> y \<Longrightarrow> rne x \<le> rne y"
proof -
  assume xy: "x \<le> y"
  have fg: "\<lfloor>x\<rfloor> \<le> \<lfloor>y\<rfloor>" using xy by (rule floor_mono)
  show ?thesis
  proof (cases "\<lfloor>x\<rfloor> = \<lfloor>y\<rfloor>")
    case True
    then show ?thesis using xy by (auto simp: rne_def Let_def)
  next
    case False
    then have "\<lfloor>x\<rfloor> + 1 \<le> \<lfloor>y\<rfloor>" using fg by simp
    then show ?thesis using rne_bounds [of x] rne_bounds [of y] by linarith
  qed
qed

lemma bitlen_quotient_bounds:
  fixes A B :: nat
  assumes A: "0 < A" and B: "0 < B"
  defines "k \<equiv> int (floorlog 2 A) - int (floorlog 2 B)"
  shows "(2::rat) powi (k - 1) < of_nat A / of_nat B"
    and "(of_nat A / of_nat B :: rat) < 2 powi (k + 1)"
proof -
  let ?LA = "floorlog 2 A" and ?LB = "floorlog 2 B"
  have LA: "2 ^ (?LA - 1) \<le> A" "A < 2 ^ ?LA"
    using floorlog_bounds [of A 2] A by simp_all
  have LB: "2 ^ (?LB - 1) \<le> B" "B < 2 ^ ?LB"
    using floorlog_bounds [of B 2] B by simp_all
  have LApos: "0 < ?LA" using A floorlog_eq_zero_iff [of 2 A] by auto
  have LBpos: "0 < ?LB" using B floorlog_eq_zero_iff [of 2 B] by auto
  have rA: "(2::rat) ^ (?LA - 1) \<le> of_nat A" "(of_nat A :: rat) < 2 ^ ?LA"
    using LA by (metis of_nat_le_iff of_nat_numeral of_nat_power, metis of_nat_less_iff of_nat_numeral of_nat_power)
  have rB: "(2::rat) ^ (?LB - 1) \<le> of_nat B" "(of_nat B :: rat) < 2 ^ ?LB"
    using LB by (metis of_nat_le_iff of_nat_numeral of_nat_power, metis of_nat_less_iff of_nat_numeral of_nat_power)
  have Bp: "(0::rat) < of_nat B" using B by simp
  have k1: "(2::rat) powi (k - 1) = 2 ^ (?LA - 1) / 2 ^ ?LB"
  proof -
    have "k - 1 = int (?LA - 1) - int ?LB" using LApos by (simp add: k_def)
    then show ?thesis by (simp add: power_int_diff)
  qed
  have k2: "(2::rat) powi (k + 1) = 2 ^ ?LA / 2 ^ (?LB - 1)"
  proof -
    have "k + 1 = int ?LA - int (?LB - 1)" using LBpos by (simp add: k_def)
    then show ?thesis by (simp add: power_int_diff)
  qed
  have "(2::rat) ^ (?LA - 1) / 2 ^ ?LB < of_nat A / of_nat B"
    using rA(1) rB(2) Bp by (intro frac_less2) simp_all
  then show "(2::rat) powi (k - 1) < of_nat A / of_nat B" by (simp only: k1)
  have "(of_nat A :: rat) / of_nat B < 2 ^ ?LA / 2 ^ (?LB - 1)"
    using rA(2) rB(1) Bp by (intro frac_less) simp_all
  then show "(of_nat A / of_nat B :: rat) < 2 powi (k + 1)" by (simp only: k2)
qed

lemma bitlen_floorlog: "bitlen a = int (floorlog 2 (nat a))"
proof (induction a rule: bitlen.induct)
  case (1 a)
  show ?case
  proof (cases "0 < a")
    case True
    have "nat a div 2 = nat (a div 2)" using True by (simp add: nat_div_distrib)
    then show ?thesis using 1 True by (subst bitlen.simps, subst compute_floorlog) simp
  next
    case False
    then show ?thesis by (subst bitlen.simps, subst compute_floorlog) simp
  qed
qed

lemma ilog2_bounds:
  assumes "0 < q"
  shows "2 powi (ilog2 q) \<le> q \<and> q < 2 powi (ilog2 q + 1)"
proof -
  obtain a b where ab: "quotient_of q = (a, b)" by (cases "quotient_of q")
  have b: "0 < b" using ab by (rule quotient_of_denom_pos)
  have q: "q = of_int a / of_int b" using ab by (rule quotient_of_div)
  have a: "0 < a" using assms b unfolding q by (simp add: zero_less_divide_iff)
  have qn: "q = of_nat (nat a) / of_nat (nat b)" using a b q by simp
  define k where "k = int (floorlog 2 (nat a)) - int (floorlog 2 (nat b))"
  have lo: "(2::rat) powi (k - 1) < q" and hi: "q < 2 powi (k + 1)"
    using bitlen_quotient_bounds [of "nat a" "nat b"] a b unfolding qn k_def by simp_all
  have il: "ilog2 q = (if 2 powi k \<le> q then k else k - 1)"
    by (simp add: ilog2_def ab k_def Let_def bitlen_floorlog)
  show ?thesis
  proof (cases "2 powi k \<le> q")
    case True
    then show ?thesis using hi il by simp
  next
    case False
    then show ?thesis using lo il by simp
  qed
qed

lemma ilog2_mono:
  assumes "0 < q" "q \<le> r"
  shows "ilog2 q \<le> ilog2 r"
proof (rule ccontr)
  assume "\<not> ilog2 q \<le> ilog2 r"
  then have "ilog2 r + 1 \<le> ilog2 q" by simp
  then have "(2::rat) powi (ilog2 r + 1) \<le> 2 powi (ilog2 q)"
    by (intro power_int_increasing) simp_all
  moreover have "r < 2 powi (ilog2 r + 1)" using ilog2_bounds [of r] assms by simp
  moreover have "2 powi (ilog2 q) \<le> q" using ilog2_bounds [of q] assms by simp
  ultimately show False using assms by simp
qed


lemma ulp_pos: "0 < ulp q"
  by (simp add: ulp_def)

lemma fl_pos_eq: "0 < q \<Longrightarrow> fl q = of_int (rne (q / ulp q)) * ulp q"
  by (simp add: fl_def round_to_def)

lemma fl_nonneg: "0 \<le> q \<Longrightarrow> 0 \<le> fl q"
proof (cases "q = 0")
  case True
  then show ?thesis by (simp add: fl_def)
next
  case False
  assume "0 \<le> q"
  then have q: "0 < q" using False by simp
  have "0 \<le> q / ulp q" using q ulp_pos [of q] by simp
  then have "rne 0 \<le> rne (q / ulp q)" by (rule rne_mono)
  then have "0 \<le> rne (q / ulp q)" using rne_of_int [of 0] by simp
  then show ?thesis using ulp_pos [of q] q by (simp add: fl_pos_eq)
qed

lemma fl_upper:
  assumes q: "0 < q"
  shows "fl q \<le> 2 powi (max (ilog2 q) (- 1022) + 1)"
proof -
  define e where "e = max (ilog2 q) (- 1022)"
  have u: "ulp q = 2 powi (e - 52)" using q by (simp add: ulp_def e_def)
  have "q < 2 powi (ilog2 q + 1)" using ilog2_bounds [OF q] by simp
  also have "\<dots> \<le> 2 powi (e + 1)"
    by (intro power_int_increasing) (simp_all add: e_def)
  finally have qe: "q < 2 powi (e + 1)" .
  have split: "(2::rat) powi (e + 1) = of_int (2 ^ 53) * 2 powi (e - 52)"
  proof -
    have "e + 1 = 53 + (e - 52)" by simp
    then have "(2::rat) powi (e + 1) = 2 powi (53 + (e - 52))" by (rule arg_cong)
    also have "\<dots> = 2 powi 53 * 2 powi (e - 52)" by (rule power_int_add) simp
    finally show ?thesis by simp
  qed
  have "q / ulp q \<le> of_int (2 ^ 53)"
    using qe unfolding split u by (simp add: pos_divide_le_eq)
  then have "rne (q / ulp q) \<le> rne (of_int (2 ^ 53))" by (rule rne_mono)
  then have "rne (q / ulp q) \<le> 2 ^ 53" by (simp only: rne_of_int)
  then have "(of_int (rne (q / ulp q)) :: rat) \<le> of_int (2 ^ 53)" by (simp only: of_int_le_iff)
  then have "of_int (rne (q / ulp q)) * ulp q \<le> of_int (2 ^ 53) * ulp q"
    using ulp_pos [of q] by (intro mult_right_mono) simp_all
  then show ?thesis unfolding fl_pos_eq [OF q] e_def [symmetric] split u .
qed

lemma fl_lower:
  assumes r: "0 < r" and n: "- 1022 \<le> ilog2 r"
  shows "2 powi (ilog2 r) \<le> fl r"
proof -
  define e where "e = ilog2 r"
  have u: "ulp r = 2 powi (e - 52)" using r n by (simp add: ulp_def e_def max_def)
  have re: "2 powi e \<le> r" using ilog2_bounds [OF r] by (simp add: e_def)
  have split: "(2::rat) powi e = of_int (2 ^ 52) * 2 powi (e - 52)"
  proof -
    have "e = 52 + (e - 52)" by simp
    then have "(2::rat) powi e = 2 powi (52 + (e - 52))" by (rule arg_cong)
    also have "\<dots> = 2 powi 52 * 2 powi (e - 52)" by (rule power_int_add) simp
    finally show ?thesis by simp
  qed
  have "of_int (2 ^ 52) \<le> r / ulp r"
    using re unfolding split u by (simp add: pos_le_divide_eq)
  then have "rne (of_int (2 ^ 52)) \<le> rne (r / ulp r)" by (rule rne_mono)
  then have "2 ^ 52 \<le> rne (r / ulp r)" by (simp only: rne_of_int)
  then have "(of_int (2 ^ 52) :: rat) \<le> of_int (rne (r / ulp r))" by (simp only: of_int_le_iff)
  then have "of_int (2 ^ 52) * ulp r \<le> of_int (rne (r / ulp r)) * ulp r"
    using ulp_pos [of r] by (intro mult_right_mono) simp_all
  then show ?thesis unfolding fl_pos_eq [OF r] e_def [symmetric] split u .
qed

lemma fl_mono:
  assumes q: "0 \<le> q" and qr: "q \<le> r"
  shows "fl q \<le> fl r"
proof (cases "q = 0")
  case True
  then show ?thesis using fl_nonneg [of r] q qr by (simp add: fl_def)
next
  case False
  then have qp: "0 < q" using q by simp
  then have rp: "0 < r" using qr by simp
  define eq where "eq = max (ilog2 q) (- 1022)"
  define er where "er = max (ilog2 r) (- 1022)"
  have le: "eq \<le> er" using ilog2_mono [OF qp qr] by (simp add: eq_def er_def)
  show ?thesis
  proof (cases "eq = er")
    case True
    then have u: "ulp q = ulp r" using qp rp by (simp add: ulp_def eq_def er_def)
    have "q / ulp r \<le> r / ulp r" using qr ulp_pos [of r] by (simp add: divide_right_mono)
    then have "rne (q / ulp r) \<le> rne (r / ulp r)" by (rule rne_mono)
    then have "(of_int (rne (q / ulp r)) :: rat) \<le> of_int (rne (r / ulp r))" by simp
    then have "of_int (rne (q / ulp r)) * ulp r \<le> of_int (rne (r / ulp r)) * ulp r"
      using ulp_pos [of r] by (intro mult_right_mono) simp_all
    then show ?thesis by (simp add: fl_pos_eq [OF qp] fl_pos_eq [OF rp] u)
  next
    case False
    then have lt: "eq + 1 \<le> er" using le by simp
    have "- 1022 \<le> eq" by (simp add: eq_def)
    then have er: "er = ilog2 r" "- 1022 \<le> ilog2 r" using lt by (simp_all add: er_def max_def split: if_splits)
    have "fl q \<le> 2 powi (eq + 1)" using fl_upper [OF qp] by (simp add: eq_def)
    also have "\<dots> \<le> 2 powi er" using lt by (intro power_int_increasing) simp_all
    also have "\<dots> \<le> fl r" using fl_lower [OF rp er(2)] by (simp add: er(1))
    finally show ?thesis .
  qed
qed

lemma fl_0: "fl 0 = 0"
  by (simp add: fl_def)
lemma fl_1: "fl 1 = 1"
  by code_simp
lemma fl_100: "fl 100 = 100"
  by code_simp


lemma overflowThreshold_eq: "overflowThreshold = 2 ^ 1024"
proof -
  have "overflowThreshold = (2::rat) ^ (2 * 2 * 2 * 2 * 2 * 2 * 2 * 2 * 2 * 2)"
    unfolding overflowThreshold_def power_mult ..
  then show ?thesis by simp
qed

lemma js_round_small:
  assumes "0 \<le> q" "q \<le> B" "fl B = B" "B < overflowThreshold"
  shows "js_round q = Fin (fl q) \<and> 0 \<le> fl q \<and> fl q \<le> B"
proof -
  have lo: "0 \<le> fl q" using assms(1) by (rule fl_nonneg)
  have "fl q \<le> fl B" using assms(1,2) by (rule fl_mono)
  then have hi: "fl q \<le> B" using assms(3) by simp
  have "\<not> overflowThreshold \<le> fl q" using hi assms(4) by simp
  moreover have "\<not> fl q \<le> - overflowThreshold" using lo assms(4) hi by linarith
  ultimately show ?thesis using lo hi by (simp add: js_round_def finiteOrInfinity_def)
qed

lemma expertiseScore_bounds:
  assumes "1 \<le> c0" "c \<le> c0"
  shows "\<exists>y. expertiseScore c c0 = Fin y \<and> 0 \<le> y \<and> y \<le> 100"
proof -
  have c0: "(0::rat) < of_nat c0" using assms(1) by simp
  have q: "(0::rat) \<le> of_nat c / of_nat c0" "(of_nat c / of_nat c0 :: rat) \<le> 1"
    using assms c0 by (simp_all add: divide_le_eq_1)
  have ot1: "(1::rat) < overflowThreshold" and ot100: "(100::rat) < overflowThreshold"
    by (simp_all add: overflowThreshold_eq)
  have d: "js_round (of_nat c / of_nat c0) = Fin (fl (of_nat c / of_nat c0))
           \<and> 0 \<le> fl (of_nat c / of_nat c0) \<and> fl (of_nat c / of_nat c0) \<le> 1"
    using js_round_small [OF q fl_1 ot1] .
  define x where "x = fl (of_nat c / of_nat c0)"
  have x: "0 \<le> x" "x \<le> 1" "js_div (js_of_nat c) (js_of_nat c0) = Fin x"
    using d c0 by (simp_all add: x_def js_of_nat_def)
  have m: "js_round (x * 100) = Fin (fl (x * 100)) \<and> 0 \<le> fl (x * 100) \<and> fl (x * 100) \<le> 100"
    using x(1,2) by (intro js_round_small [OF _ _ fl_100 ot100]) simp_all
  show ?thesis unfolding expertiseScore_def x(3) using m by simp
qed

lemma expertiseScore_top:
  assumes "1 \<le> c0"
  shows "expertiseScore c0 c0 = Fin 100"
proof -
  have c0: "(of_nat c0 :: rat) \<noteq> 0" using assms by simp
  have ot1: "(1::rat) < overflowThreshold" and ot100: "(100::rat) < overflowThreshold"
    by (simp_all add: overflowThreshold_eq)
  have r1: "js_round 1 = Fin 1" using ot1 by (simp add: js_round_def finiteOrInfinity_def fl_1)
  have r100: "js_round 100 = Fin 100" using ot100 by (simp add: js_round_def finiteOrInfinity_def fl_100)
  show ?thesis using c0 by (simp add: expertiseScore_def js_of_nat_def r1 r100)
qed

subsection \<open>Sorting\<close>

lemma sortDescBy_set [simp]: "set (sortDescBy key xs) = set xs"
  by (simp add: sortDescBy_def)

lemma sortDescBy_length [simp]: "length (sortDescBy key xs) = length xs"
  by (simp add: sortDescBy_def)

lemma sortDescBy_Nil [simp]: "sortDescBy key [] = []"
  by (simp add: sortDescBy_def)

lemma sortDescBy_Nil_iff [simp]: "sortDescBy key xs = [] \<longleftrightarrow> xs = []"
  using sortDescBy_length [of key xs] by (metis length_0_conv)

lemma sortDescBy_descending:
  "i \<le> j \<Longrightarrow> j < length xs \<Longrightarrow> key (sortDescBy key xs ! j) \<le> key (sortDescBy key xs ! i)"
proof -
  assume ij: "i \<le> j" "j < length xs"
  have "sorted (map (\<lambda>x. - int (key x)) (sortDescBy key xs))"
    by (simp add: sortDescBy_def)
  then have "map (\<lambda>x. - int (key x)) (sortDescBy key xs) ! i
             \<le> map (\<lambda>x. - int (key x)) (sortDescBy key xs) ! j"
    using ij by (simp add: sorted_iff_nth_mono)
  then show ?thesis using ij by simp
qed

lemma sortDescBy_head_max:
  assumes "sortDescBy key xs = t # rest" and "x \<in> set xs"
  shows "key x \<le> key t"
proof -
  have "x \<in> set (sortDescBy key xs)" using assms(2) by simp
  then obtain j where j: "j < length (sortDescBy key xs)" "sortDescBy key xs ! j = x"
    unfolding in_set_conv_nth by blast
  have "key (sortDescBy key xs ! j) \<le> key (sortDescBy key xs ! 0)"
    using j(1) by (intro sortDescBy_descending) simp_all
  then show ?thesis using j(2) assms(1) by simp
qed

lemma sortDescBy_head_Max:
  assumes "sortDescBy key xs = t # rest"
  shows "key t = Max (key ` set xs)"
proof -
  have "t \<in> set xs" using assms by (metis list.set_intros(1) sortDescBy_set)
  then have "key t \<in> key ` set xs" by simp
  moreover have "\<forall>k \<in> key ` set xs. k \<le> key t"
    using sortDescBy_head_max [OF assms] by auto
  ultimately show ?thesis by (intro Max_eqI [symmetric]) auto
qed

lemma sortDescBy_stable:
  "filter (\<lambda>x. key x = k) (sortDescBy key xs) = filter (\<lambda>x. key x = k) xs"
  using sort_key_stable [of "\<lambda>x. - int (key x)" "- int k" xs]
  by (simp add: sortDescBy_def)

lemma sortedDescOf_iff: "sortedDescOf key xs ys \<longleftrightarrow> ys = sortDescBy key xs"
proof
  assume h: "sortedDescOf key xs ys"
  have "sort_key (\<lambda>x. - int (key x)) xs = ys"
  proof (rule properties_for_sort_key)
    show "mset ys = mset xs" using h by (simp add: sortedDescOf_def)
    show "sorted (map (\<lambda>x. - int (key x)) ys)" using h by (simp add: sortedDescOf_def)
    fix k assume "k \<in> set ys"
    then have "filter (\<lambda>x. key x = key k) ys = filter (\<lambda>x. key x = key k) xs"
      using h by (simp add: sortedDescOf_def)
    moreover have "(\<lambda>x. - int (key k) = - int (key x)) = (\<lambda>x. key x = key k)" by auto
    ultimately show "filter (\<lambda>x. - int (key k) = - int (key x)) ys
                     = filter (\<lambda>x. - int (key k) = - int (key x)) xs" by simp
  qed
  then show "ys = sortDescBy key xs" by (simp add: sortDescBy_def)
next
  assume "ys = sortDescBy key xs"
  then show "sortedDescOf key xs ys"
    by (simp add: sortedDescOf_def sortDescBy_stable) (simp add: sortDescBy_def)
qed

subsection \<open>Expert identification\<close>

lemma sample_sorted: "sortDescBy Contributor.commits sample_contributors = sample_contributors"
  by (simp add: sortDescBy_def sample_contributors_def)

lemma score_150: "expertiseScore 150 150 = Fin 100"
  by code_simp
lemma score_85: "expertiseScore 85 150 = Fin (7975124340135253 / 140737488355328)"
  by code_simp
lemma score_45: "expertiseScore 45 150 = Fin 30"
  by code_simp

lemma sample_task: "expertTask sample_contributors = Inr sample_identification"
  unfolding expertTask_def sample_sorted
  by (simp add: expertResult_def sample_contributors_def sample_identification_def
        score_150 score_85 score_45)

lemma spec_percent_85: "specExpertisePercent 85 150 = 57"
  by (simp add: specExpertisePercent_def round_def floor_unique)

text \<open>
  C1, as the code has it. For every non-empty list of contributors the task succeeds;
  its scores list the contributors in descending order of commits, and the score of a
  contributor is \<open>(commits / max) * 100\<close> in binary64 arithmetic, where \<open>max\<close> is the
  largest commit count. The score is not rounded to an integer. For 150, 85 and 45
  commits the scores are 100, 56.666666666666664 and 30, in this order.
\<close>

theorem expertTask_scores:
  "(cs \<noteq> [] \<longrightarrow>
      (\<exists>r. expertTask cs = Inr r
         \<and> map ExpertiseScore.name (expertiseScores r)
             = map Contributor.name (sortDescBy Contributor.commits cs)
         \<and> map score (expertiseScores r)
             = map (\<lambda>c. expertiseScore (Contributor.commits c)
                                        (Max (Contributor.commits ` set cs)))
                   (sortDescBy Contributor.commits cs)))
   \<and> expertTask sample_contributors = Inr sample_identification"
proof (intro conjI impI)
  assume ne: "cs \<noteq> []"
  obtain t rest where s: "sortDescBy Contributor.commits cs = t # rest"
    using ne by (cases "sortDescBy Contributor.commits cs") simp_all
  have m: "Contributor.commits t = Max (Contributor.commits ` set cs)"
    using s by (rule sortDescBy_head_Max)
  show "\<exists>r. expertTask cs = Inr r
         \<and> map ExpertiseScore.name (expertiseScores r)
             = map Contributor.name (sortDescBy Contributor.commits cs)
         \<and> map score (expertiseScores r)
             = map (\<lambda>c. expertiseScore (Contributor.commits c)
                                        (Max (Contributor.commits ` set cs)))
                   (sortDescBy Contributor.commits cs)"
    by (simp add: expertTask_def expertResult_def s m [symmetric] comp_def)
next
  show "expertTask sample_contributors = Inr sample_identification"
    by (rule sample_task)
qed

theorem expertTask_scores_witness:
  "sample_contributors \<noteq> []
   \<and> expertTask sample_contributors = Inr sample_identification
   \<and> map ExpertiseScore.name (expertiseScores sample_identification)
       = [''Alice Dev'', ''Bob Engineer'', ''Charlie Coder'']
   \<and> map score (expertiseScores sample_identification)
       = [Fin 100, Fin (7975124340135253 / 140737488355328), Fin 30]"
  using expertTask_scores [of sample_contributors]
  by (simp add: sample_identification_def sample_contributors_def)

text \<open>
  The score of the contributor with 85 commits is not \<open>round(100 * 85 / 150) = 57\<close>.
\<close>

theorem expertise_percent_rounded_counterexample:
  "expertTask sample_contributors = Inr sample_identification
   \<and> specExpertisePercent 85 150 = 57
   \<and> score (expertiseScores sample_identification ! 1)
       \<noteq> Fin (of_int (specExpertisePercent 85 150))"
  by (simp add: sample_task spec_percent_85) (simp add: sample_identification_def)

lemma single_task:
  "expertTask single_contributor
   = Inr \<lparr> topExpert = ''Sarah Smith'', totalExperts = 1,
           expertiseScores = [\<lparr> ExpertiseScore.name = ''Sarah Smith'', score = Fin 100 \<rparr>] \<rparr>"
  by (simp add: expertTask_def expertResult_def sortDescBy_def single_contributor_def
        expertiseScore_top)

text \<open>
  Without a commit at all the quotient is \<open>0 / 0\<close>, and the score is NaN.
\<close>

lemma expertTask_no_commits:
  "expertTask [\<lparr> Contributor.name = n, commits = 0 \<rparr>]
   = Inr \<lparr> topExpert = n, totalExperts = 1,
           expertiseScores = [\<lparr> ExpertiseScore.name = n, score = NaN \<rparr>] \<rparr>"
  by (simp add: expertTask_def expertResult_def sortDescBy_def expertiseScore_def js_of_nat_def)

text \<open>
  So a single contributor without a commit has a score that is not 100, and not a
  number between 0 and 100 either.
\<close>

theorem zero_commits_counterexample:
  "expertTask idle_contributor
   = Inr \<lparr> topExpert = ''Sarah Smith'', totalExperts = 1,
           expertiseScores = [\<lparr> ExpertiseScore.name = ''Sarah Smith'', score = NaN \<rparr>] \<rparr>
   \<and> NaN \<noteq> Fin 100
   \<and> \<not> js_le (Fin 0) NaN \<and> \<not> js_le NaN (Fin 100)"
  by (simp add: idle_contributor_def expertTask_no_commits js_le_def)

text \<open>
  C2, as the code has it. For every non-empty list of contributors of which one at
  least has a commit, every score is a number between 0 and 100, every contributor
  whose commit count is the largest has the score 100 (so the first of the list has),
  and a single contributor has the score 100.
\<close>

theorem expertise_scores_bounded:
  assumes "cs \<noteq> []" and "\<exists>c \<in> set cs. 1 \<le> Contributor.commits c"
  shows "\<exists>r. expertTask cs = Inr r
     \<and> length (expertiseScores r) = length cs
     \<and> (\<forall>i < length cs. \<exists>y. score (expertiseScores r ! i) = Fin y \<and> 0 \<le> y \<and> y \<le> 100)
     \<and> (\<forall>i < length cs.
           Contributor.commits (sortDescBy Contributor.commits cs ! i)
             = Max (Contributor.commits ` set cs)
           \<longrightarrow> score (expertiseScores r ! i) = Fin 100)
     \<and> score (expertiseScores r ! 0) = Fin 100
     \<and> (length cs = 1 \<longrightarrow> map score (expertiseScores r) = [Fin 100])"
proof -
  let ?s = "sortDescBy Contributor.commits cs"
  obtain t rest where s: "?s = t # rest"
    using assms(1) by (cases ?s) simp_all
  have m: "Contributor.commits t = Max (Contributor.commits ` set cs)"
    using s by (rule sortDescBy_head_Max)
  obtain c where c: "c \<in> set cs" "1 \<le> Contributor.commits c" using assms(2) by blast
  have "Contributor.commits c \<le> Contributor.commits t" using s c(1) by (rule sortDescBy_head_max)
  then have t1: "1 \<le> Contributor.commits t" using c(2) by simp
  define r where "r = \<lparr> topExpert = Contributor.name t, totalExperts = length cs,
     expertiseScores = map (\<lambda>c. \<lparr> ExpertiseScore.name = Contributor.name c,
        score = expertiseScore (Contributor.commits c) (Contributor.commits t) \<rparr>) ?s \<rparr>"
  have run: "expertTask cs = Inr r"
    by (simp add: expertTask_def expertResult_def s r_def)
  have len: "length (expertiseScores r) = length cs" by (simp add: r_def)
  have nth: "score (expertiseScores r ! i)
             = expertiseScore (Contributor.commits (?s ! i)) (Contributor.commits t)"
    if "i < length cs" for i
    using that by (simp add: r_def)
  have le: "Contributor.commits (?s ! i) \<le> Contributor.commits t" if "i < length cs" for i
  proof -
    have "?s ! i \<in> set ?s" using that by (intro nth_mem) simp
    then have "?s ! i \<in> set cs" by simp
    then show ?thesis using sortDescBy_head_max [OF s] by blast
  qed
  have b: "\<exists>y. score (expertiseScores r ! i) = Fin y \<and> 0 \<le> y \<and> y \<le> 100"
    if "i < length cs" for i
    using expertiseScore_bounds [OF t1 le [OF that]] nth [OF that] by simp
  have top: "score (expertiseScores r ! i) = Fin 100"
    if "i < length cs" "Contributor.commits (?s ! i) = Max (Contributor.commits ` set cs)" for i
    using nth [OF that(1)] that(2) m expertiseScore_top [OF t1] by simp
  have pos: "0 < length cs" using assms(1) by simp
  have s0: "?s ! 0 = t" using s by simp
  have first: "score (expertiseScores r ! 0) = Fin 100"
    using top [OF pos] s0 m by simp
  have one: "map score (expertiseScores r) = [Fin 100]" if "length cs = 1"
  proof -
    have "length ?s = 1" using that by simp
    then have "rest = []" using s by simp
    then show ?thesis using s expertiseScore_top [OF t1] by (simp add: r_def)
  qed
  show ?thesis
  proof (intro exI [of _ r] conjI allI impI)
    show "expertTask cs = Inr r" by (rule run)
    show "length (expertiseScores r) = length cs" by (rule len)
    show "\<exists>y. score (expertiseScores r ! i) = Fin y \<and> 0 \<le> y \<and> y \<le> 100"
      if "i < length cs" for i using that by (rule b)
    show "score (expertiseScores r ! i) = Fin 100"
      if "i < length cs" "Contributor.commits (?s ! i) = Max (Contributor.commits ` set cs)" for i
      using that by (rule top)
    show "score (expertiseScores r ! 0) = Fin 100" by (rule first)
    show "map score (expertiseScores r) = [Fin 100]" if "length cs = 1" using that by (rule one)
  qed
qed

theorem expertise_scores_bounded_witness:
  "sample_contributors \<noteq> []
   \<and> list_ex (\<lambda>c. 1 \<le> Contributor.commits c) sample_contributors
   \<and> expertTask sample_contributors = Inr sample_identification
   \<and> score (expertiseScores sample_identification ! 0) = Fin 100
   \<and> score (expertiseScores sample_identification ! 1) = Fin (7975124340135253 / 140737488355328)
   \<and> score (expertiseScores sample_identification ! 2) = Fin 30"
  using expertise_scores_bounded [of sample_contributors] sample_task
  by (simp add: sample_identification_def sample_contributors_def)

text \<open>
  C3, as the code has it. With no contributor the task fails, and returns nothing, by
  the TypeError of reading \<open>sorted[0].name\<close>; with at least one contributor it
  returns a result with its three fields filled in: the name of the first of the
  sorted contributors, the number of contributors, and one score for each.
\<close>

theorem expertTask_fails_iff_empty:
  "(cs = [] \<longrightarrow> expertTask cs = Inl TypeError)
   \<and> (cs \<noteq> [] \<longrightarrow>
        (\<exists>r. expertTask cs = Inr r
           \<and> topExpert r = Contributor.name (hd (sortDescBy Contributor.commits cs))
           \<and> totalExperts r = length cs
           \<and> length (expertiseScores r) = length cs))"
proof (cases "sortDescBy Contributor.commits cs")
  case Nil
  then have "cs = []" by simp
  then show ?thesis by (simp add: expertTask_def expertResult_def sortDescBy_def)
next
  case (Cons t rest)
  then have ne: "cs \<noteq> []" by (auto simp: sortDescBy_def)
  have "length (t # rest) = length cs" using Cons [symmetric] by simp
  then show ?thesis using Cons ne by (simp add: expertTask_def expertResult_def)
qed

theorem expertTask_fails_iff_empty_witness:
  "expertTask [] = Inl TypeError
   \<and> expertTask sample_contributors = Inr sample_identification
   \<and> topExpert sample_identification = ''Alice Dev''
   \<and> totalExperts sample_identification = 3
   \<and> length (expertiseScores sample_identification) = 3"
  using expertTask_fails_iff_empty [of "[]"] expertTask_fails_iff_empty [of sample_contributors]
    sample_task
  by (simp add: sample_identification_def sample_contributors_def)

text \<open>The failure on the empty list is not an \<open>EmptyActivityError\<close>.\<close>

theorem empty_activity_error_counterexample:
  "expertTask [] = Inl TypeError \<and> expertTask [] \<noteq> Inl EmptyActivityError"
  by (simp add: expertTask_def expertResult_def sortDescBy_def)

subsection \<open>Collaboration score\<close>

lemma fold_matchEntry:
  "fold (matchEntry lower) table (fp, b)
   = (fold (\<lambda>entry s. if includesStr lower (fst entry) then set_add s (snd entry) else s) table fp,
      b \<or> list_ex (\<lambda>entry. includesStr lower (fst entry)) table)"
  by (induction table arbitrary: fp b) (simp_all add: matchEntry_def)

lemma scanMessage_count:
  "CollaborationScan.collaborativeCommits (scanMessage msg st)
   = CollaborationScan.collaborativeCommits st + (if isCollaborative msg then 1 else 0)"
  by (simp add: scanMessage_def fold_matchEntry isCollaborative_def Let_def)

lemma fold_scanMessage_count:
  "CollaborationScan.collaborativeCommits (fold scanMessage msgs st)
   = CollaborationScan.collaborativeCommits st + length (filter isCollaborative msgs)"
  by (induction msgs arbitrary: st) (simp_all add: scanMessage_count)

lemma fraction_bounds:
  assumes "k \<le> n" "1 \<le> n"
  shows "\<exists>y. js_div (js_of_nat k) (js_of_nat n) = Fin y \<and> 0 \<le> y \<and> y \<le> 1"
proof -
  have n: "(0::rat) < of_nat n" using assms(2) by simp
  have q: "(0::rat) \<le> of_nat k / of_nat n" "(of_nat k / of_nat n :: rat) \<le> 1"
    using assms n by (simp_all add: divide_le_eq_1)
  have ot1: "(1::rat) < overflowThreshold" by (simp add: overflowThreshold_eq)
  show ?thesis using js_round_small [OF q fl_1 ot1] n by (simp add: js_of_nat_def)
qed

lemma collaborationScore_fraction_lemma:
  "collaborationScore (collaborationAnalysisTask msgs)
   = js_div (js_of_nat (length (filter isCollaborative msgs))) (js_of_nat (length msgs))"
  by (simp add: collaborationAnalysisTask_def Let_def fold_scanMessage_count)

lemma sample_messages_collaborative:
  "filter isCollaborative sample_messages = [''Reviewed Alice's PR'', ''Merged feature'']"
  by code_simp

lemma two_thirds: "js_div (js_of_nat 2) (js_of_nat 3) = Fin (6004799503160661 / 9007199254740992)"
  by code_simp

lemma sample_messages_count:
  "length (filter isCollaborative sample_messages) = 2" "length sample_messages = 3"
  by (simp_all add: sample_messages_collaborative) (simp add: sample_messages_def)

lemma sample_messages_score:
  "collaborationScore (collaborationAnalysisTask sample_messages)
   = Fin (6004799503160661 / 9007199254740992)"
  using collaborationScore_fraction_lemma [of sample_messages]
  by (simp only: sample_messages_count two_thirds)

text \<open>
  C4, as the code has it. The collaboration score is the number of collaborative
  messages divided by the number of messages, in binary64 arithmetic: a number between
  0 and 1 that is neither scaled to 0--100 nor rounded, and NaN when there is no
  message. A message is collaborative when, case ignored, it contains one of the keys
  \<open>review\<close>, \<open>pair\<close>, \<open>thanks\<close>, \<open>helped\<close>, \<open>team\<close>, \<open>merged\<close>. For the three
  sample messages two are collaborative and the score is 0.6666666666666666.
\<close>

theorem collaborationScore_fraction:
  "CollaborationAnalysis.collaborativeCommits (collaborationAnalysisTask msgs)
     = length (filter isCollaborative msgs)
   \<and> totalCommits (collaborationAnalysisTask msgs) = length msgs
   \<and> collaborationScore (collaborationAnalysisTask msgs)
       = js_div (js_of_nat (length (filter isCollaborative msgs))) (js_of_nat (length msgs))
   \<and> (msgs = [] \<longrightarrow> collaborationScore (collaborationAnalysisTask msgs) = NaN)
   \<and> (msgs \<noteq> [] \<longrightarrow>
        (\<exists>y. collaborationScore (collaborationAnalysisTask msgs) = Fin y \<and> 0 \<le> y \<and> y \<le> 1))
   \<and> CollaborationAnalysis.collaborativeCommits (collaborationAnalysisTask sample_messages) = 2
   \<and> collaborationScore (collaborationAnalysisTask sample_messages)
       = Fin (6004799503160661 / 9007199254740992)"
proof -
  have c: "CollaborationAnalysis.collaborativeCommits (collaborationAnalysisTask msgs)
           = length (filter isCollaborative msgs)"
    by (simp add: collaborationAnalysisTask_def Let_def fold_scanMessage_count)
  have t: "totalCommits (collaborationAnalysisTask msgs) = length msgs"
    by (simp add: collaborationAnalysisTask_def Let_def)
  have s: "collaborationScore (collaborationAnalysisTask msgs)
           = js_div (js_of_nat (length (filter isCollaborative msgs))) (js_of_nat (length msgs))"
    by (simp add: collaborationAnalysisTask_def Let_def fold_scanMessage_count)
  have e: "collaborationScore (collaborationAnalysisTask msgs) = NaN" if "msgs = []"
  proof -
    have "collaborationScore (collaborationAnalysisTask []) = NaN"
      by (simp add: collaborationScore_fraction_lemma js_of_nat_def)
    then show ?thesis using that by simp
  qed
  have b: "\<exists>y. collaborationScore (collaborationAnalysisTask msgs) = Fin y \<and> 0 \<le> y \<and> y \<le> 1"
    if "msgs \<noteq> []"
  proof -
    have "1 \<le> length msgs" using that by (simp add: Suc_le_eq)
    then show ?thesis unfolding s by (intro fraction_bounds) simp_all
  qed
  have n: "CollaborationAnalysis.collaborativeCommits (collaborationAnalysisTask sample_messages) = 2"
    by (simp add: collaborationAnalysisTask_def Let_def fold_scanMessage_count
          sample_messages_count)
  show ?thesis using c t s e b n sample_messages_score by blast
qed

theorem collaborationScore_fraction_witness:
  "CollaborationAnalysis.collaborativeCommits (collaborationAnalysisTask sample_messages) = 2
   \<and> totalCommits (collaborationAnalysisTask sample_messages) = 3
   \<and> collaborationScore (collaborationAnalysisTask sample_messages)
       = Fin (6004799503160661 / 9007199254740992)
   \<and> (66 / 100 :: rat) \<le> 6004799503160661 / 9007199254740992
   \<and> collaborationScore (collaborationAnalysisTask []) = NaN"
  using collaborationScore_fraction [of sample_messages] collaborationScore_fraction [of "[]"]
  by (simp add: sample_messages_count js_of_nat_def)

lemma spec_sharing_sample: "specKnowledgeSharing sample_messages = 67"
proof -
  have "filter (\<lambda>msg. list_ex (\<lambda>keyword. includesStr (toLowerCase msg) keyword)
                [''review'', ''pair'', ''merge'', ''thanks'', ''helped'']) sample_messages
        = [''Reviewed Alice's PR'', ''Merged feature'']"
    by code_simp
  then show ?thesis
    by (simp add: specKnowledgeSharing_def sample_messages_def round_def floor_unique)
qed

text \<open>
  For the three sample messages the score of the code is below 66, where the metric of
  the specification is 67.
\<close>

theorem knowledge_sharing_counterexample:
  "collaborationScore (collaborationAnalysisTask sample_messages)
     = Fin (6004799503160661 / 9007199254740992)
   \<and> \<not> js_le (Fin 66) (collaborationScore (collaborationAnalysisTask sample_messages))
   \<and> specKnowledgeSharing sample_messages = 67"
  by (simp add: sample_messages_score js_le_def spec_sharing_sample)

text \<open>
  The keys are those of the table of \<open>real-analysis.eval.ts\<close>: a message with \<open>merge\<close>
  but not \<open>merged\<close> does not count, and one with \<open>team\<close> does. The detection task of
  \<open>starter.eval.ts\<close> has the keys of the specification, and reports only whether some
  message matches, and which keys do.
\<close>

lemma collaboration_keys:
  "\<not> isCollaborative ''Merge branch main'' \<and> isCollaborative ''Team sync''"
  by code_simp

lemma sample_detection:
  "collaborationDetectionTask sample_messages
   = \<lparr> hasCollaboration = True, patterns = [''review'', ''merge''] \<rparr>"
  by code_simp

subsection \<open>Specializations\<close>

lemma addSpecializations_fold:
  "addSpecializations s c = fold (\<lambda>l acc. set_add acc l) (labelsOf c) s"
  by (simp add: addSpecializations_def labelsOf_def Let_def)

lemma fold_fold_concat:
  "fold (\<lambda>c acc. fold f (g c) acc) cs s = fold f (concat (map g cs)) s"
  by (induction cs arbitrary: s) simp_all

lemma firstOccurrences_snoc:
  "firstOccurrences (ys @ [x]) = set_add (firstOccurrences ys) x"
  by (simp add: firstOccurrences_def set_add_def)

lemma fold_set_add:
  "fold (\<lambda>l acc. set_add acc l) xs (firstOccurrences ys) = firstOccurrences (ys @ xs)"
proof (induction xs arbitrary: ys)
  case Nil
  then show ?case by simp
next
  case (Cons x xs)
  have "fold (\<lambda>l acc. set_add acc l) (x # xs) (firstOccurrences ys)
        = fold (\<lambda>l acc. set_add acc l) xs (firstOccurrences (ys @ [x]))"
    by (simp add: firstOccurrences_snoc)
  also have "\<dots> = firstOccurrences ((ys @ [x]) @ xs)" by (rule Cons.IH)
  finally show ?case by simp
qed

lemma detectSpecializations_eq:
  "detectSpecializations cs = firstOccurrences (concat (map labelsOf cs))"
proof -
  have "detectSpecializations cs
        = fold (\<lambda>c acc. fold (\<lambda>l acc. set_add acc l) (labelsOf c) acc) cs []"
    by (simp add: detectSpecializations_def addSpecializations_fold)
  also have "\<dots> = fold (\<lambda>l acc. set_add acc l) (concat (map labelsOf cs)) (firstOccurrences [])"
    by (simp add: fold_fold_concat firstOccurrences_def)
  also have "\<dots> = firstOccurrences ([] @ concat (map labelsOf cs))" by (rule fold_set_add)
  finally show ?thesis by simp
qed

text \<open>
  C7, as the code has it. The labels form a sequence without repetition, in the order
  of their first occurrence when the commits are scanned in the order of the input
  array (the dates are not looked at), the labels of one commit in the order
  Authentication, Security, React, TypeScript; when no commit matches, the sequence is
  empty.
\<close>

theorem detectSpecializations_order:
  "distinct (detectSpecializations cs)
   \<and> detectSpecializations cs = firstOccurrences (concat (map labelsOf cs))
   \<and> set (detectSpecializations cs) = (\<Union>c \<in> set cs. set (labelsOf c))
   \<and> ((\<forall>c \<in> set cs. labelsOf c = []) \<longrightarrow> detectSpecializations cs = [])"
proof -
  have d: "distinct (detectSpecializations cs)"
    by (simp add: detectSpecializations_eq firstOccurrences_def)
  have s: "set (detectSpecializations cs) = (\<Union>c \<in> set cs. set (labelsOf c))"
    by (simp add: detectSpecializations_eq firstOccurrences_def)
  have e: "detectSpecializations cs = []" if "\<forall>c \<in> set cs. labelsOf c = []"
  proof -
    have "set (detectSpecializations cs) = {}" using that by (simp add: s)
    then show ?thesis by simp
  qed
  show ?thesis using d s e detectSpecializations_eq by blast
qed

lemma sample_detected:
  "detectSpecializations sample_commits = [''Authentication'', ''Security'', ''React'', ''TypeScript'']"
  by code_simp

lemma sample_labels:
  "map labelsOf sample_commits = [[''Authentication'', ''Security''], [], [''React'', ''TypeScript'']]"
  by code_simp

lemma sample_by_date:
  "sort_key date sample_commits = rev sample_commits"
  by (simp add: sample_commits_def)

lemma sample_spec_order:
  "specSpecializations sample_commits = [''React'', ''TypeScript'', ''Authentication'', ''Security'']"
  by (simp add: specSpecializations_def sample_by_date rev_map [symmetric] sample_labels
        firstOccurrences_def)

lemma unmatched_detected: "detectSpecializations [unmatched_commit] = []"
  by code_simp

theorem detectSpecializations_order_witness:
  "detectSpecializations sample_commits = [''Authentication'', ''Security'', ''React'', ''TypeScript'']
   \<and> concat (map labelsOf sample_commits) = [''Authentication'', ''Security'', ''React'', ''TypeScript'']
   \<and> detectSpecializations [unmatched_commit] = []"
proof -
  have a: "detectSpecializations sample_commits
           = firstOccurrences (concat (map labelsOf sample_commits))"
    by (rule conjunct1 [OF conjunct2 [OF detectSpecializations_order]])
  have b: "concat (map labelsOf sample_commits)
           = [''Authentication'', ''Security'', ''React'', ''TypeScript'']"
    by (simp add: sample_labels)
  show ?thesis using a b unmatched_detected by (simp add: sample_detected)
qed

text \<open>
  On the commits of the evaluation's own data, which are listed from the newest to
  the oldest, the order of the code is not the order of a scan by date.
\<close>

theorem timestamp_order_counterexample:
  "detectSpecializations sample_commits = [''Authentication'', ''Security'', ''React'', ''TypeScript'']
   \<and> specSpecializations sample_commits = [''React'', ''TypeScript'', ''Authentication'', ''Security'']
   \<and> detectSpecializations sample_commits \<noteq> specSpecializations sample_commits"
  by (simp add: sample_detected sample_spec_order)

subsection \<open>File experts\<close>

text \<open>
  C9, as the code has it. For every file the contributors, as the task sorts them, are
  in descending order of commits, contributors with equal commits staying in the
  order of the input (no tie-break by last edit or by name), so the first of them has
  the largest commit count, at least that of every contributor of the file. Whenever
  the task returns a result, the expert it reports is that first contributor, with
  that commit count; and it returns one for every file with two contributors or more.
\<close>

theorem fileExpertTask_ranking:
  "(\<forall>i j. i \<le> j \<and> j < length (contributors inp) \<longrightarrow>
        FileContributor.commits (sortDescBy FileContributor.commits (contributors inp) ! j)
        \<le> FileContributor.commits (sortDescBy FileContributor.commits (contributors inp) ! i))
   \<and> (\<forall>k. filter (\<lambda>c. FileContributor.commits c = k)
               (sortDescBy FileContributor.commits (contributors inp))
           = filter (\<lambda>c. FileContributor.commits c = k) (contributors inp))
   \<and> (\<forall>c \<in> set (contributors inp).
         FileContributor.commits c
         \<le> FileContributor.commits (sortDescBy FileContributor.commits (contributors inp) ! 0))
   \<and> (\<forall>r. fileExpertTask inp = Inr r \<longrightarrow>
         expertName r
           = FileContributor.name (sortDescBy FileContributor.commits (contributors inp) ! 0)
         \<and> totalContributions r = Max (FileContributor.commits ` set (contributors inp))
         \<and> (\<forall>c \<in> set (contributors inp). FileContributor.commits c \<le> totalContributions r))
   \<and> (2 \<le> length (contributors inp) \<longrightarrow> (\<exists>r. fileExpertTask inp = Inr r))"
proof -
  let ?s = "sortDescBy FileContributor.commits (contributors inp)"
  have d: "\<forall>i j. i \<le> j \<and> j < length (contributors inp) \<longrightarrow>
            FileContributor.commits (?s ! j) \<le> FileContributor.commits (?s ! i)"
    using sortDescBy_descending [of _ _ "contributors inp" FileContributor.commits] by blast
  have st: "\<forall>k. filter (\<lambda>c. FileContributor.commits c = k) ?s
             = filter (\<lambda>c. FileContributor.commits c = k) (contributors inp)"
    by (simp only: sortDescBy_stable) simp
  have hd_max: "FileContributor.commits c \<le> FileContributor.commits (?s ! 0)"
    if "c \<in> set (contributors inp)" for c
  proof -
    have "?s \<noteq> []" using that by auto
    then obtain t rest where s: "?s = t # rest" by (cases ?s) simp_all
    show ?thesis using sortDescBy_head_max [OF s that] s by simp
  qed
  have ret: "expertName r = FileContributor.name (?s ! 0)
         \<and> totalContributions r = Max (FileContributor.commits ` set (contributors inp))
         \<and> (\<forall>c \<in> set (contributors inp). FileContributor.commits c \<le> totalContributions r)"
    if r: "fileExpertTask inp = Inr r" for r
  proof -
    obtain t u rest where s: "?s = t # u # rest"
      using r by (cases ?s; cases "tl ?s") (auto simp: fileExpertTask_def)
    have m: "FileContributor.commits t = Max (FileContributor.commits ` set (contributors inp))"
      using s by (rule sortDescBy_head_Max)
    have e: "expertName r = FileContributor.name t"
      "totalContributions r = FileContributor.commits t"
      using r by (auto simp: fileExpertTask_def s)
    have s0: "?s ! 0 = t" using s by simp
    have "\<forall>c \<in> set (contributors inp). FileContributor.commits c \<le> totalContributions r"
      using hd_max unfolding e(2) s0 [symmetric] by blast
    then show ?thesis using e m s0 by simp
  qed
  have ex: "\<exists>r. fileExpertTask inp = Inr r" if two: "2 \<le> length (contributors inp)"
  proof -
    have "length ?s = length (contributors inp)" by simp
    then obtain t u rest where s: "?s = t # u # rest"
      using two by (cases ?s; cases "tl ?s") auto
    show ?thesis by (simp add: fileExpertTask_def s)
  qed
  show ?thesis
  proof (intro conjI allI impI ballI)
    show "FileContributor.commits (?s ! j) \<le> FileContributor.commits (?s ! i)"
      if "i \<le> j \<and> j < length (contributors inp)" for i j using d that by blast
    show "filter (\<lambda>c. FileContributor.commits c = k) ?s
          = filter (\<lambda>c. FileContributor.commits c = k) (contributors inp)" for k
      using st by blast
    show "FileContributor.commits c \<le> FileContributor.commits (?s ! 0)"
      if "c \<in> set (contributors inp)" for c using that by (rule hd_max)
    show "expertName r = FileContributor.name (?s ! 0)"
      if "fileExpertTask inp = Inr r" for r using ret [OF that] by blast
    show "totalContributions r = Max (FileContributor.commits ` set (contributors inp))"
      if "fileExpertTask inp = Inr r" for r using ret [OF that] by blast
    show "FileContributor.commits c \<le> totalContributions r"
      if "fileExpertTask inp = Inr r" "c \<in> set (contributors inp)" for r c
      using ret [OF that(1)] that(2) by blast
    show "\<exists>r. fileExpertTask inp = Inr r" if "2 \<le> length (contributors inp)"
      using that by (rule ex)
  qed
qed

lemma sample_file_sorted:
  "sortDescBy FileContributor.commits (contributors sample_file_input) = contributors sample_file_input"
  by (simp add: sortDescBy_def sample_file_input_def)

lemma sample_confidence:
  "js_div (js_of_nat 15) (js_add (js_of_nat 15) (js_of_nat 2)) = Fin (1986882188545807 / 2251799813685248)"
  by code_simp

lemma sample_file_task:
  "fileExpertTask sample_file_input
   = Inr \<lparr> FileExpertMatch.filePath = ''src/auth/login.ts'', expertName = ''Alice Chen'',
           confidence = Fin (1986882188545807 / 2251799813685248), totalContributions = 15 \<rparr>"
  unfolding fileExpertTask_def sample_file_sorted
  by (simp add: sample_file_input_def sample_confidence)

theorem fileExpertTask_ranking_witness:
  "2 \<le> length (contributors sample_file_input)
   \<and> fileExpertTask sample_file_input
     = Inr \<lparr> FileExpertMatch.filePath = ''src/auth/login.ts'', expertName = ''Alice Chen'',
             confidence = Fin (1986882188545807 / 2251799813685248), totalContributions = 15 \<rparr>
   \<and> FileContributor.name
        (sortDescBy FileContributor.commits (contributors sample_file_input) ! 0) = ''Alice Chen''
   \<and> Max (FileContributor.commits ` set (contributors sample_file_input)) = 15"
  using fileExpertTask_ranking [of sample_file_input] sample_file_task
  by (simp add: sample_file_input_def)

lemma tied_sorted:
  "sortDescBy FileContributor.commits (contributors tied_file_input) = contributors tied_file_input"
  by (simp add: sortDescBy_def tied_file_input_def)

text \<open>
  Two contributors with equal commits stay in input order, although the second has the
  more recent last edit: the sorted array is not ranked as the specification words it,
  while the reverse order would be.
\<close>

theorem tie_break_counterexample:
  "sortDescBy FileContributor.commits (contributors tied_file_input) = contributors tied_file_input
   \<and> \<not> specRanked (sortDescBy FileContributor.commits (contributors tied_file_input))
   \<and> specRanked (rev (contributors tied_file_input))"
  unfolding tied_sorted
  by (simp add: tied_file_input_def specRankedBefore_def)

text \<open>
  The files sheet of \<open>generateCSV\<close> does not sort: it reports the first expert of the
  sequence it is given.
\<close>

lemma primaryExpertName_first:
  "experts f = e # es \<Longrightarrow> FileExpert.name e \<noteq> [] \<Longrightarrow> primaryExpertName f = FileExpert.name e"
  by (simp add: primaryExpertName_def)

lemma sample_filesRow:
  "filesRow sample_file
   = [CHR 0x22] @ ''login.ts'' @ [CHR 0x22] @ '','' @ [CHR 0x22] @ ''src/auth/login.ts'' @ [CHR 0x22]
     @ '',2,'' @ [CHR 0x22] @ ''Alice Chen'' @ [CHR 0x22] @ '',high''"
  by code_simp

subsection \<open>Recommendation rules\<close>

text \<open>
  C5. The two rules of \<open>generateRecommendations\<close> fire independently: a risk score
  above 70 emits the knowledge-sharing recommendation, a sharing score below 50 emits
  the collaboration recommendation, both are emitted (in this order) when both guards
  hold, and when neither holds the three general recommendations are emitted. Each
  recommendation is emitted as a paragraph of the string that the function returns;
  the list is never empty, and neither is the string.
\<close>

theorem recommendations_rules:
  "recommendations a =
     (if js_less (Fin 70) (riskScoreOf a) \<or> js_less (sharingScoreOf a) (Fin 50)
      then (if js_less (Fin 70) (riskScoreOf a) then [knowledgeRecommendation] else []) @
           (if js_less (sharingScoreOf a) (Fin 50) then [collaborationRecommendation] else [])
      else generalRecommendations)
   \<and> 1 \<le> length (recommendations a)
   \<and> generateRecommendations a =
     (if js_less (Fin 70) (riskScoreOf a) \<or> js_less (sharingScoreOf a) (Fin 50)
      then (if js_less (Fin 70) (riskScoreOf a)
            then ''<p>'' @ knowledgeRecommendation @ ''</p>'' else []) @
           (if js_less (sharingScoreOf a) (Fin 50)
            then ''<p>'' @ collaborationRecommendation @ ''</p>'' else [])
      else ''<p>Consider implementing pair programming sessions to distribute knowledge</p>'' @
           ''<p>Document key workflows and architectural decisions</p>'' @
           ''<p>Set up regular technical sharing sessions</p>'')
   \<and> generateRecommendations a \<noteq> []"
proof -
  have l: "recommendations a =
     (if js_less (Fin 70) (riskScoreOf a) \<or> js_less (sharingScoreOf a) (Fin 50)
      then (if js_less (Fin 70) (riskScoreOf a) then [knowledgeRecommendation] else []) @
           (if js_less (sharingScoreOf a) (Fin 50) then [collaborationRecommendation] else [])
      else generalRecommendations)"
    by (simp add: recommendations_def generalRecommendations_def Let_def)
  have n: "1 \<le> length (recommendations a)"
    by (simp add: recommendations_def generalRecommendations_def Let_def)
  have g: "generateRecommendations a =
     (if js_less (Fin 70) (riskScoreOf a) \<or> js_less (sharingScoreOf a) (Fin 50)
      then (if js_less (Fin 70) (riskScoreOf a)
            then ''<p>'' @ knowledgeRecommendation @ ''</p>'' else []) @
           (if js_less (sharingScoreOf a) (Fin 50)
            then ''<p>'' @ collaborationRecommendation @ ''</p>'' else [])
      else ''<p>Consider implementing pair programming sessions to distribute knowledge</p>'' @
           ''<p>Document key workflows and architectural decisions</p>'' @
           ''<p>Set up regular technical sharing sessions</p>'')"
    unfolding generateRecommendations_def l by (simp add: generalRecommendations_def)
  have e: "generateRecommendations a \<noteq> []"
    unfolding g by simp
  show ?thesis using l n g e by blast
qed

theorem recommendations_rules_witness:
  "recommendations (sample_analysis (Fin 80) (Fin 40)) =
     [knowledgeRecommendation, collaborationRecommendation]
   \<and> generateRecommendations (sample_analysis (Fin 80) (Fin 40)) =
       ''<p>Implement regular knowledge sharing sessions and documentation sprints</p>'' @
       ''<p>Establish regular code review rotations and pair programming sessions</p>''
   \<and> recommendations (sample_analysis (Fin 80) (Fin 60)) = [knowledgeRecommendation]
   \<and> generateRecommendations (sample_analysis (Fin 80) (Fin 60)) =
       ''<p>Implement regular knowledge sharing sessions and documentation sprints</p>''
   \<and> recommendations (sample_analysis (Fin 10) (Fin 40)) = [collaborationRecommendation]
   \<and> generateRecommendations (sample_analysis (Fin 10) (Fin 40)) =
       ''<p>Establish regular code review rotations and pair programming sessions</p>''
   \<and> recommendations (sample_analysis (Fin 10) (Fin 60)) = generalRecommendations
   \<and> generateRecommendations (sample_analysis (Fin 10) (Fin 60)) =
       ''<p>Consider implementing pair programming sessions to distribute knowledge</p>'' @
       ''<p>Document key workflows and architectural decisions</p>'' @
       ''<p>Set up regular technical sharing sessions</p>''
   \<and> recommendations (sample_analysis NaN NaN) = generalRecommendations"
  using recommendations_rules [of "sample_analysis (Fin 80) (Fin 40)"]
        recommendations_rules [of "sample_analysis (Fin 80) (Fin 60)"]
        recommendations_rules [of "sample_analysis (Fin 10) (Fin 40)"]
        recommendations_rules [of "sample_analysis (Fin 10) (Fin 60)"]
        recommendations_rules [of "sample_analysis NaN NaN"]
  by (simp add: sample_analysis_def riskScoreOf_def sharingScoreOf_def
        knowledgeRecommendation_def collaborationRecommendation_def)

subsection \<open>Report generation and the analysis\<close>

text \<open>
  What report generation does to the analysis: every field is left alone except
  \<open>expertProfiles\<close>, which is left sorted by descending contributions.
\<close>

lemma generateAnalysisSummary_frame:
  "snd (generateAnalysisSummary a)
   = a \<lparr> expertProfiles := sortDescBy contributions (expertProfiles a) \<rparr>"
  by (simp add: generateAnalysisSummary_def Let_def split: list.splits)

lemma generateHTMLReport_frame:
  "snd (generateHTMLReport a)
   = a \<lparr> expertProfiles := sortDescBy contributions (expertProfiles a) \<rparr>"
  by (simp add: generateHTMLReport_def Let_def split_def generateAnalysisSummary_frame)

lemma generateHTMLReport_keeps_contents:
  "mset (expertProfiles (snd (generateHTMLReport a))) = mset (expertProfiles a)"
  by (simp add: generateHTMLReport_frame sortDescBy_def)

text \<open>
  C6. Generating a report should leave the analysis as it was. It does not: for an
  analysis whose profiles are Bob (1 contribution) and then Alice (2 contributions),
  the analysis after \<open>generateHTMLReport\<close> lists Alice before Bob.
\<close>

theorem generateHTMLReport_reorders_profiles:
  "map ExpertProfile.name (expertProfiles unsorted_analysis) = [''Bob'', ''Alice'']
   \<and> map ExpertProfile.name (expertProfiles (snd (generateHTMLReport unsorted_analysis)))
       = [''Alice'', ''Bob'']
   \<and> snd (generateHTMLReport unsorted_analysis) \<noteq> unsorted_analysis"
  by (simp add: generateHTMLReport_frame sortDescBy_def unsorted_analysis_def)

text \<open>
  A second report from the same analysis object therefore shows the expert cards in
  another order than the first.
\<close>

lemma generateHTMLReport_twice:
  "expertCards (fst (generateHTMLReport unsorted_analysis))
   \<noteq> expertCards (fst (generateHTMLReport (snd (generateHTMLReport unsorted_analysis))))"
  by (simp add: generateHTMLReport_frame)
     (simp add: generateHTMLReport_def Let_def split_def sortDescBy_def unsorted_analysis_def
        expertCard_def)

subsection \<open>Path sanitisation\<close>

lemma sanitizeFilePath_result:
  "sanitizeFilePath pm f w = Inr p \<Longrightarrow>
     p = resolve pm [resolve pm [w], normalize pm f]
     \<and> (p = resolve pm [w] \<or> startsWith (withSep pm p) (withSep pm (resolve pm [w])))"
  by (auto simp: sanitizeFilePath_def Let_def split: if_splits)

lemma resolveArgs_absolute:
  "posixIsAbsolute cwd \<Longrightarrow> snd (resolveArgs (ps @ [cwd]) acc)"
  by (induction ps arbitrary: acc) (auto simp: posixIsAbsolute_def)

lemma posixResolve_absolute:
  assumes "posixIsAbsolute cwd"
  shows "posixIsAbsolute (posixResolve cwd args)"
proof -
  obtain rp ra where r: "resolveArgs (rev args @ [cwd]) [] = (rp, ra)"
    by (cases "resolveArgs (rev args @ [cwd]) []")
  have "ra" using resolveArgs_absolute [OF assms, of "rev args" "[]"] r by simp
  then show ?thesis by (simp add: posixResolve_def r Let_def posixIsAbsolute_def)
qed

lemma startsWith_prefix: "startsWith s p \<longleftrightarrow> prefix p s"
  by (induction s p rule: startsWith.induct) auto

lemma splitOn_no_sep: "s \<in> set (splitOn c p) \<Longrightarrow> c \<notin> set s"
  by (induction p arbitrary: s) (auto split: if_splits list.splits)

lemma splitOn_nonempty [simp]: "splitOn c p \<noteq> []"
  by (induction p) (auto split: list.splits)

lemma splitOn_no_sep_string: "c \<notin> set s \<Longrightarrow> splitOn c s = [s]"
  by (induction s) auto

lemma splitOn_append_sep:
  "c \<notin> set s \<Longrightarrow> splitOn c (s @ c # rest) = s # splitOn c rest"
  by (induction s) (auto split: list.splits)

lemma splitOn_join:
  assumes "segs \<noteq> []" "\<forall>s \<in> set segs. CHR ''/'' \<notin> set s"
  shows "splitOn CHR ''/'' (join ''/'' segs) = segs"
  using assms
proof (induction segs)
  case Nil
  then show ?case by simp
next
  case step: (Cons x xs)
  show ?case
  proof (cases xs)
    case Nil
    then show ?thesis using step.prems by (simp add: splitOn_no_sep_string)
  next
    case (Cons y ys)
    then have "splitOn CHR ''/'' (join ''/'' xs) = xs" using step.IH step.prems by simp
    then show ?thesis using Cons step.prems by (simp add: splitOn_append_sep)
  qed
qed

lemma normalizeSegments_subset:
  "set (normalizeSegments False res segs)
   \<subseteq> set res \<union> {s \<in> set segs. s \<noteq> [] \<and> s \<noteq> ''.'' \<and> s \<noteq> ''..''}"
proof (induction segs arbitrary: res)
  case Nil
  then show ?case by simp
next
  case (Cons seg segs)
  show ?case
  proof (cases "seg = [] \<or> seg = ''.''")
    case True
    then show ?thesis using Cons.IH [of res] by auto
  next
    case False
    show ?thesis
    proof (cases "seg = ''..''")
      case True
      show ?thesis
      proof (cases res)
        case Nil
        then show ?thesis using True Cons.IH [of "[]"] by auto
      next
        case (Cons l e)
        then show ?thesis using True Cons.IH [of res] Cons.IH [of e]
          by (auto split: if_splits)
      qed
    next
      case notdd: False
      then show ?thesis using False Cons.IH [of "seg # res"] by auto
    qed
  qed
qed

lemma normalizeSegments_clean:
  "cleanSegments (normalizeSegments False [] (splitOn CHR ''/'' p))"
  using normalizeSegments_subset [of "[]" "splitOn CHR ''/'' p"] splitOn_no_sep [of _ "CHR ''/''" p]
  by (auto simp: cleanSegments_def)


lemma posixResolve_form:
  assumes "posixIsAbsolute cwd"
  shows "\<exists>segs. cleanSegments segs \<and> posixResolve cwd args = ''/'' @ join ''/'' segs"
proof -
  obtain rp ra where r: "resolveArgs (rev args @ [cwd]) [] = (rp, ra)"
    by (cases "resolveArgs (rev args @ [cwd]) []")
  have ra: "ra" using resolveArgs_absolute [OF assms, of "rev args" "[]"] r by simp
  have "posixResolve cwd args
        = ''/'' @ join ''/'' (normalizeSegments False [] (splitOn CHR ''/'' rp))"
    using ra by (simp add: posixResolve_def r normalizeString_def)
  then show ?thesis using normalizeSegments_clean [of rp] by blast
qed

lemma segmentsOf_form:
  assumes "cleanSegments segs"
  shows "segmentsOf (''/'' @ join ''/'' segs) = segs"
proof (cases segs)
  case Nil
  then show ?thesis by (simp add: segmentsOf_def)
next
  case (Cons x xs)
  have "\<forall>s \<in> set segs. CHR ''/'' \<notin> set s" using assms by (simp add: cleanSegments_def)
  then have "splitOn CHR ''/'' (join ''/'' segs) = segs"
    using Cons by (intro splitOn_join) simp_all
  moreover have "filter (\<lambda>s. s \<noteq> []) segs = segs"
    using assms by (simp add: cleanSegments_def)
  ultimately show ?thesis by (simp add: segmentsOf_def)
qed

lemma join_slash_concat:
  "segs \<noteq> [] \<Longrightarrow> join ''/'' segs @ ''/'' = concat (map (\<lambda>s. s @ ''/'') segs)"
  by (induction segs rule: induct_list012) simp_all

lemma join_snoc:
  "join ''/'' (xs @ [x]) = (if xs = [] then x else join ''/'' xs @ ''/'' @ x)"
  by (induction xs rule: induct_list012) simp_all

lemma last_join:
  assumes "segs \<noteq> []" "last segs \<noteq> []"
  shows "join ''/'' segs \<noteq> [] \<and> last (join ''/'' segs) = last (last segs)"
proof -
  have "segs = butlast segs @ [last segs]" using assms(1) by simp
  then have "join ''/'' segs
             = (if butlast segs = [] then last segs
                else join ''/'' (butlast segs) @ ''/'' @ last segs)"
    using join_snoc [of "butlast segs" "last segs"] by simp
  then show ?thesis using assms(2) by (simp split: if_splits)
qed

lemma endsWith_slash: "endsWith p ''/'' \<longleftrightarrow> p \<noteq> [] \<and> last p = CHR ''/''"
  by (cases p rule: rev_cases) (simp_all add: endsWith_def)

lemma withSep_form:
  assumes "cleanSegments segs"
  shows "withSep (posix cwd) (''/'' @ join ''/'' segs) = ''/'' @ concat (map (\<lambda>s. s @ ''/'') segs)"
proof (cases "segs = []")
  case True
  then show ?thesis by (simp add: withSep_def posix_def endsWith_def)
next
  case False
  have l: "last segs \<in> set segs" using False by simp
  then have ln: "last segs \<noteq> []" and ls: "CHR ''/'' \<notin> set (last segs)"
    using assms by (auto simp: cleanSegments_def)
  have jn: "join ''/'' segs \<noteq> []" using last_join [OF False ln] by simp
  have "last (join ''/'' segs) = last (last segs)" using last_join [OF False ln] by simp
  moreover have "last (last segs) \<in> set (last segs)" using ln by simp
  ultimately have "last (join ''/'' segs) \<noteq> CHR ''/''" using ls by metis
  then have "\<not> endsWith (''/'' @ join ''/'' segs) ''/''"
    using jn by (simp add: endsWith_slash)
  then show ?thesis
    using join_slash_concat [OF False] by (simp add: withSep_def posix_def)
qed

lemma prefix_segment:
  assumes "prefix (b @ CHR ''/'' # y) (a @ CHR ''/'' # x)"
    and "CHR ''/'' \<notin> set a" "CHR ''/'' \<notin> set b"
  shows "a = b \<and> prefix y x"
  using assms
proof (induction a arbitrary: b)
  case Nil
  then show ?case by (cases b) auto
next
  case (Cons c a)
  then show ?case by (cases b) auto
qed

lemma prefix_concat_segments:
  assumes "prefix (concat (map (\<lambda>s. s @ ''/'') rs)) (concat (map (\<lambda>s. s @ ''/'') ps))"
    and "\<forall>s \<in> set rs. CHR ''/'' \<notin> set s" "\<forall>s \<in> set ps. CHR ''/'' \<notin> set s"
  shows "prefix rs ps"
  using assms
proof (induction rs arbitrary: ps)
  case Nil
  then show ?case by simp
next
  case (Cons r rs)
  show ?case
  proof (cases ps)
    case Nil
    then show ?thesis using Cons.prems(1) by simp
  next
    case (Cons p ps')
    have "prefix (r @ CHR ''/'' # concat (map (\<lambda>s. s @ ''/'') rs))
                 (p @ CHR ''/'' # concat (map (\<lambda>s. s @ ''/'') ps'))"
      using Cons.prems(1) Cons by simp
    then have "p = r \<and> prefix (concat (map (\<lambda>s. s @ ''/'') rs)) (concat (map (\<lambda>s. s @ ''/'') ps'))"
      using Cons.prems(2,3) Cons by (intro prefix_segment) simp_all
    then show ?thesis using Cons.IH [of ps'] Cons.prems(2,3) Cons by simp
  qed
qed

lemma prefix_segments_concat:
  "prefix rs ps \<Longrightarrow>
     prefix (concat (map (\<lambda>s. s @ ''/'') rs)) (concat (map (\<lambda>s. s @ ''/'') ps))"
  by (auto simp: prefix_def)

lemma posix_guard_iff:
  assumes abs: "posixIsAbsolute cwd"
  shows "(posixResolve cwd args = posixResolve cwd [w]
          \<or> startsWith (withSep (posix cwd) (posixResolve cwd args))
                        (withSep (posix cwd) (posixResolve cwd [w])))
         \<longleftrightarrow> prefix (segmentsOf (posixResolve cwd [w])) (segmentsOf (posixResolve cwd args))"
proof -
  let ?p = "posixResolve cwd args" and ?root = "posixResolve cwd [w]"
  obtain ps where ps: "cleanSegments ps" "?p = ''/'' @ join ''/'' ps"
    using posixResolve_form [OF abs, of args] by auto
  obtain rs where rs: "cleanSegments rs" "?root = ''/'' @ join ''/'' rs"
    using posixResolve_form [OF abs, of "[w]"] by auto
  have sp: "segmentsOf ?p = ps" unfolding ps(2) using ps(1) by (rule segmentsOf_form)
  have sr: "segmentsOf ?root = rs" unfolding rs(2) using rs(1) by (rule segmentsOf_form)
  have w: "startsWith (withSep (posix cwd) ?p) (withSep (posix cwd) ?root)
           \<longleftrightarrow> prefix (concat (map (\<lambda>s. s @ ''/'') rs)) (concat (map (\<lambda>s. s @ ''/'') ps))"
    unfolding ps(2) rs(2) withSep_form [OF ps(1)] withSep_form [OF rs(1)] startsWith_prefix
    by simp
  show ?thesis
  proof
    assume "?p = ?root \<or> startsWith (withSep (posix cwd) ?p) (withSep (posix cwd) ?root)"
    then show "prefix (segmentsOf ?root) (segmentsOf ?p)"
    proof
      assume "?p = ?root"
      then show ?thesis by simp
    next
      assume "startsWith (withSep (posix cwd) ?p) (withSep (posix cwd) ?root)"
      then have "prefix (concat (map (\<lambda>s. s @ ''/'') rs)) (concat (map (\<lambda>s. s @ ''/'') ps))"
        using w by simp
      then have "prefix rs ps"
        using ps(1) rs(1) by (intro prefix_concat_segments) (simp_all add: cleanSegments_def)
      then show ?thesis using sp sr by simp
    qed
  next
    assume "prefix (segmentsOf ?root) (segmentsOf ?p)"
    then have "prefix rs ps" using sp sr by simp
    then have "prefix (concat (map (\<lambda>s. s @ ''/'') rs)) (concat (map (\<lambda>s. s @ ''/'') ps))"
      by (rule prefix_segments_concat)
    then show "?p = ?root \<or> startsWith (withSep (posix cwd) ?p) (withSep (posix cwd) ?root)"
      using w by simp
  qed
qed

lemma posixResolve_segments:
  assumes "posixIsAbsolute cwd"
  shows "''..'' \<notin> set (segmentsOf (posixResolve cwd args))
         \<and> ''.'' \<notin> set (segmentsOf (posixResolve cwd args))"
proof -
  obtain ps where ps: "cleanSegments ps" "posixResolve cwd args = ''/'' @ join ''/'' ps"
    using posixResolve_form [OF assms, of args] by auto
  have "segmentsOf (posixResolve cwd args) = ps"
    unfolding ps(2) using ps(1) by (rule segmentsOf_form)
  then show ?thesis using ps(1) by (auto simp: cleanSegments_def)
qed

text \<open>
  C10. On a POSIX system, whatever the (absolute) working directory, for every file
  path and workspace root \<open>sanitizeFilePath\<close> either throws or returns an absolute path
  that is the resolved workspace root or that, extended with the separator, starts
  with the resolved workspace root extended with the separator. The path returned has
  no segment \<open>..\<close> or \<open>.\<close> and its directory names begin with those of the resolved root,
  so it is never outside the root; and the function returns exactly when the resolved
  path is inside the root in this sense, and throws the traversal error otherwise.
\<close>

theorem sanitizeFilePath_within_root:
  assumes abs: "posixIsAbsolute cwd"
  shows "sanitizeFilePath (posix cwd) f w
         = (if prefix (segmentsOf (posixResolve cwd [w]))
                      (segmentsOf (posixResolve cwd [posixResolve cwd [w], posixNormalize f]))
            then Inr (posixResolve cwd [posixResolve cwd [w], posixNormalize f])
            else Inl (PathTraversal f))
     \<and> ((\<exists>e. sanitizeFilePath (posix cwd) f w = Inl e)
        \<or> (\<exists>p. sanitizeFilePath (posix cwd) f w = Inr p
               \<and> posixIsAbsolute p
               \<and> (p = posixResolve cwd [w]
                   \<or> startsWith (withSep (posix cwd) p)
                                 (withSep (posix cwd) (posixResolve cwd [w])))
               \<and> prefix (segmentsOf (posixResolve cwd [w])) (segmentsOf p)
               \<and> ''..'' \<notin> set (segmentsOf p)
               \<and> ''.'' \<notin> set (segmentsOf p)))"
proof -
  let ?root = "posixResolve cwd [w]"
  let ?p = "posixResolve cwd [?root, posixNormalize f]"
  let ?inside = "prefix (segmentsOf ?root) (segmentsOf ?p)"
  have sel: "resolve (posix cwd) = posixResolve cwd" "normalize (posix cwd) = posixNormalize"
    by (simp_all add: posix_def)
  have g: "(?p = ?root \<or> startsWith (withSep (posix cwd) ?p) (withSep (posix cwd) ?root))
           \<longleftrightarrow> ?inside"
    using abs by (rule posix_guard_iff)
  have eq: "sanitizeFilePath (posix cwd) f w
            = (if ?inside then Inr ?p else Inl (PathTraversal f))"
    unfolding sanitizeFilePath_def Let_def sel using g by auto
  have a: "posixIsAbsolute ?p" using abs by (rule posixResolve_absolute)
  have d: "''..'' \<notin> set (segmentsOf ?p) \<and> ''.'' \<notin> set (segmentsOf ?p)"
    using abs by (rule posixResolve_segments)
  show ?thesis
  proof (cases ?inside)
    case True
    then have "sanitizeFilePath (posix cwd) f w = Inr ?p" using eq by simp
    moreover have "?p = ?root \<or> startsWith (withSep (posix cwd) ?p) (withSep (posix cwd) ?root)"
      using g True by simp
    ultimately show ?thesis using eq a d True by blast
  next
    case False
    then have "sanitizeFilePath (posix cwd) f w = Inl (PathTraversal f)" using eq by simp
    then show ?thesis using eq by blast
  qed
qed

lemma sample_inside:
  "sanitizeFilePath (posix ''/home/u'') ''src/../a.ts'' ''/workspace'' = Inr ''/workspace/a.ts''"
  by code_simp

lemma sample_root:
  "sanitizeFilePath (posix ''/home/u'') ''.'' ''/workspace'' = Inr ''/workspace''"
  by code_simp

lemma sample_dotdot:
  "sanitizeFilePath (posix ''/home/u'') ''../etc/passwd'' ''/workspace''
   = Inl (PathTraversal ''../etc/passwd'')"
  by code_simp

lemma sample_sibling:
  "sanitizeFilePath (posix ''/home/u'') ''../workspace2/x'' ''/workspace''
   = Inl (PathTraversal ''../workspace2/x'')"
  by code_simp

lemma sample_resolved_root: "resolve (posix ''/home/u'') [''/workspace''] = ''/workspace''"
  by code_simp

lemma sample_segments:
  "segmentsOf ''/workspace/a.ts'' = [''workspace'', ''a.ts'']"
  "segmentsOf ''/workspace'' = [''workspace'']"
  by code_simp+

theorem sanitizeFilePath_within_root_witness:
  "posixIsAbsolute ''/home/u''
   \<and> sanitizeFilePath (posix ''/home/u'') ''src/../a.ts'' ''/workspace'' = Inr ''/workspace/a.ts''
   \<and> posixIsAbsolute ''/workspace/a.ts''
   \<and> startsWith (withSep (posix ''/home/u'') ''/workspace/a.ts'')
                  (withSep (posix ''/home/u'') ''/workspace'')
   \<and> prefix (segmentsOf ''/workspace'') (segmentsOf ''/workspace/a.ts'')
   \<and> ''..'' \<notin> set (segmentsOf ''/workspace/a.ts'')
   \<and> sanitizeFilePath (posix ''/home/u'') ''.'' ''/workspace'' = Inr ''/workspace''
   \<and> sanitizeFilePath (posix ''/home/u'') ''../etc/passwd'' ''/workspace''
       = Inl (PathTraversal ''../etc/passwd'')
   \<and> sanitizeFilePath (posix ''/home/u'') ''../workspace2/x'' ''/workspace''
       = Inl (PathTraversal ''../workspace2/x'')"
proof -
  have abs: "posixIsAbsolute ''/home/u''" by (simp add: posixIsAbsolute_def)
  have root: "posixResolve ''/home/u'' [''/workspace''] = ''/workspace''"
    using sample_resolved_root by (simp add: posix_def)
  have "(\<exists>e. sanitizeFilePath (posix ''/home/u'') ''src/../a.ts'' ''/workspace'' = Inl e)
        \<or> (\<exists>p. sanitizeFilePath (posix ''/home/u'') ''src/../a.ts'' ''/workspace'' = Inr p
               \<and> posixIsAbsolute p
               \<and> (p = posixResolve ''/home/u'' [''/workspace'']
                   \<or> startsWith (withSep (posix ''/home/u'') p)
                        (withSep (posix ''/home/u'') (posixResolve ''/home/u'' [''/workspace''])))
               \<and> prefix (segmentsOf (posixResolve ''/home/u'' [''/workspace''])) (segmentsOf p)
               \<and> ''..'' \<notin> set (segmentsOf p)
               \<and> ''.'' \<notin> set (segmentsOf p))"
    by (rule conjunct2 [OF sanitizeFilePath_within_root [OF abs]])
  then have "posixIsAbsolute ''/workspace/a.ts''
     \<and> (''/workspace/a.ts'' = ''/workspace''
          \<or> startsWith (withSep (posix ''/home/u'') ''/workspace/a.ts'')
                 (withSep (posix ''/home/u'') ''/workspace''))
     \<and> prefix (segmentsOf ''/workspace'') (segmentsOf ''/workspace/a.ts'')
     \<and> ''..'' \<notin> set (segmentsOf ''/workspace/a.ts'')"
    by (simp add: sample_inside root)
  then show ?thesis
    using abs by (simp add: sample_inside sample_root sample_dotdot sample_sibling)
qed

end
